theory Spec2Isabelle
  imports Main "HOL-Library.Sublist"
begin

section \<open>Data model of the release monitor\<close>

text \<open>
  The pydantic models of \<^verbatim>\<open>github_release_monitor.py\<close>. The field \<^verbatim>\<open>id\<close> of a
  release is called \<open>release_id\<close> here, since \<open>id\<close> is the identity function of HOL.
  Python's \<^verbatim>\<open>int\<close> is unbounded, hence \<open>int\<close>; \<^verbatim>\<open>Optional[str]\<close> is \<open>string option\<close>.
\<close>

record release =
  release_id :: int
  tag_name :: string
  name :: string
  published_at :: string
  html_url :: string
  body :: "string option"

record repo_config =
  owner :: string
  repo :: string
  latest_check :: "string option"
  releases :: "release list"

record release_history =
  repositories :: "repo_config list"

text \<open>
  One element of the JSON list the GitHub API answers with, restricted to the keys
  \<^verbatim>\<open>check_for_new_releases\<close> reads. \<^verbatim>\<open>name\<close> may be \<^verbatim>\<open>null\<close>; \<^verbatim>\<open>body\<close> is read with
  \<^verbatim>\<open>.get('body', '')\<close>, so the key may be absent (\<open>None\<close>), \<^verbatim>\<open>null\<close> (\<open>Some None\<close>)
  or a string. The other values have the types the \<^verbatim>\<open>Release\<close> model accepts, so that its
  validation succeeds.
\<close>

record release_data =
  data_id :: int
  data_tag_name :: string
  data_name :: "string option"
  data_published_at :: string
  data_html_url :: string
  data_body :: "string option option"

text \<open>
  What a \<^verbatim>\<open>requests.exceptions.RequestException\<close> carries: its text and, when a response
  came back, the status code (as printed) and the response text.
\<close>

record request_error =
  error_text :: string
  error_response :: "(string \<times> string) option"

text \<open>The language model's answer: the call raises, or \<^verbatim>\<open>content\<close> is a string, or it is not.\<close>

datatype llm_result = Llm_raises string | Llm_content string | Llm_no_string

text \<open>The mail tool's answer: the call raises, or the result is flagged as an error, or not.\<close>

datatype tool_result = Tool_raises string | Tool_is_error string | Tool_done

text \<open>
  The outside world of one pass: the GitHub API (per owner and repository), the wall clock
  (indexed by the number of readings taken so far), the model client (the prompt is a
  function of owner, repository and release) and the mail tool (the payload is a function
  of the five arguments of \<^verbatim>\<open>send_notification\<close>).
\<close>

record env =
  requests_get :: "string \<Rightarrow> string \<Rightarrow> request_error + release_data list"
  now :: "nat \<Rightarrow> string"
  model_create :: "string \<Rightarrow> string \<Rightarrow> release \<Rightarrow> llm_result"
  call_tool :: "string \<Rightarrow> string \<Rightarrow> string \<Rightarrow> release \<Rightarrow> string \<Rightarrow> tool_result"

text \<open>
  Effects the program has on its collaborators, in the order they happen: a write of the
  history file (with the history written), a call of the model client, a call of the mail
  tool (recipient, owner, repository, release, analysis).
\<close>

datatype effect =
  Save release_history
| Analyze string string release
| Send string string string release string

text \<open>
  The mutable state: \<^verbatim>\<open>self.history\<close> of the GitHub agent, the number of clock readings,
  the effects so far, and the diagnostics printed on failure paths (progress messages are
  not recorded).
\<close>

record world =
  history :: release_history
  clock_reads :: nat
  effects :: "effect list"
  printed :: "string list"

text \<open>Exceptions that leave \<^verbatim>\<open>analyze_release\<close>.\<close>

datatype error = Model_client_error string | Assertion_error

section \<open>GitHubReleaseAgent\<close>

subsection \<open>\<^verbatim>\<open>_load_history\<close>\<close>

text \<open>
  The history file as \<^verbatim>\<open>_load_history\<close> meets it: \<^verbatim>\<open>os.path.exists\<close> is false, or
  \<^verbatim>\<open>open\<close> raises, or the file has a content. Decoding (\<^verbatim>\<open>json.load\<close> followed by the
  pydantic validation \<^verbatim>\<open>ReleaseHistory(**data)\<close>) is library code and a parameter of the
  model: it yields a history or the text of the exception it raises.
\<close>

datatype history_file = File_missing | File_unreadable string | File_content string

definition load_history ::
  "(string \<Rightarrow> string + release_history) \<Rightarrow> history_file \<Rightarrow> (error + release_history) \<times> string list" where
  "load_history decode f =
     (case f of
        File_missing \<Rightarrow> (Inr \<lparr>repositories = []\<rparr>, [])
      | File_unreadable e \<Rightarrow> (Inr \<lparr>repositories = []\<rparr>, [''Error loading history: '' @ e])
      | File_content s \<Rightarrow>
          (case decode s of
             Inr h \<Rightarrow> (Inr h, [])
           | Inl e \<Rightarrow> (Inr \<lparr>repositories = []\<rparr>, [''Error loading history: '' @ e])))"

subsection \<open>\<^verbatim>\<open>_save_history\<close>\<close>

text \<open>The write of the whole history to the history file; the write itself is taken to
  succeed.\<close>

definition save_history :: "world \<Rightarrow> world" where
  "save_history w = w\<lparr>effects := effects w @ [Save (history w)]\<rparr>"

subsection \<open>\<^verbatim>\<open>_get_repo_index\<close> and \<^verbatim>\<open>_ensure_repo_exists\<close>\<close>

text \<open>The \<^verbatim>\<open>enumerate\<close> loop, started at position \<open>i\<close>; \<open>-1\<close> when no entry matches.\<close>

fun get_repo_index_from :: "repo_config list \<Rightarrow> string \<Rightarrow> string \<Rightarrow> int \<Rightarrow> int" where
  "get_repo_index_from [] ow rp i = -1"
| "get_repo_index_from (c # cs) ow rp i =
     (if owner c = ow \<and> repo c = rp then i else get_repo_index_from cs ow rp (i + 1))"

definition get_repo_index :: "release_history \<Rightarrow> string \<Rightarrow> string \<Rightarrow> int" where
  "get_repo_index h ow rp = get_repo_index_from (repositories h) ow rp 0"

definition ensure_repo_exists :: "string \<Rightarrow> string \<Rightarrow> release_history \<Rightarrow> int \<times> release_history" where
  "ensure_repo_exists ow rp h =
     (let index = get_repo_index h ow rp
      in if index = -1
         then (let h' = h\<lparr>repositories := repositories h @
                        [\<lparr>owner = ow, repo = rp, latest_check = None, releases = []\<rparr>]\<rparr>
               in (int (length (repositories h')) - 1, h'))
         else (index, h))"

subsection \<open>\<^verbatim>\<open>get_releases\<close>\<close>

definition get_releases :: "env \<Rightarrow> string \<Rightarrow> string \<Rightarrow> world \<Rightarrow> release_data list \<times> world" where
  "get_releases e ow rp w =
     (case requests_get e ow rp of
        Inr ds \<Rightarrow> (ds, w)
      | Inl err \<Rightarrow>
          ([], w\<lparr>printed := printed w
                 @ [''Error fetching releases for '' @ ow @ ''/'' @ rp @ '': '' @ error_text err]
                 @ (case error_response err of
                      None \<Rightarrow> []
                    | Some (code, txt) \<Rightarrow> [''Status code: '' @ code, ''Response: '' @ txt])\<rparr>))"

subsection \<open>\<^verbatim>\<open>check_for_new_releases\<close>\<close>

text \<open>\<^verbatim>\<open>Release(id=..., name=release_data['name'] or release_data['tag_name'], ...)\<close>:
  Python's \<^verbatim>\<open>or\<close> takes the tag for \<^verbatim>\<open>None\<close> and for the empty string.\<close>

definition make_release :: "release_data \<Rightarrow> release" where
  "make_release d =
     \<lparr>release_id = data_id d,
      tag_name = data_tag_name d,
      name = (case data_name d of
                None \<Rightarrow> data_tag_name d
              | Some n \<Rightarrow> if n = [] then data_tag_name d else n),
      published_at = data_published_at d,
      html_url = data_html_url d,
      body = (case data_body d of None \<Rightarrow> Some [] | Some b \<Rightarrow> b)\<rparr>"

text \<open>\<^verbatim>\<open>self.history.repositories[i].latest_check = t\<close> and
  \<^verbatim>\<open>self.history.repositories[i].releases.append(r)\<close>. The index comes from
  \<open>ensure_repo_exists\<close> and is in range (lemma \<open>ensure_repo_exists_in_range\<close>), so Python's
  \<^verbatim>\<open>IndexError\<close> and its negative indices do not arise.\<close>

definition set_latest_check :: "nat \<Rightarrow> string \<Rightarrow> release_history \<Rightarrow> release_history" where
  "set_latest_check i t h =
     h\<lparr>repositories := (repositories h)[i := (repositories h ! i)\<lparr>latest_check := Some t\<rparr>]\<rparr>"

definition append_release :: "nat \<Rightarrow> release \<Rightarrow> release_history \<Rightarrow> release_history" where
  "append_release i r h =
     h\<lparr>repositories := (repositories h)[i := (repositories h ! i)
          \<lparr>releases := releases (repositories h ! i) @ [r]\<rparr>]\<rparr>"

text \<open>The \<^verbatim>\<open>for release_data in releases_data\<close> loop. \<open>known\<close> is the list
  \<^verbatim>\<open>known_release_ids\<close>, computed once before the loop; \<open>acc\<close> is \<^verbatim>\<open>new_releases\<close>.\<close>

fun scan_releases ::
  "string \<Rightarrow> string \<Rightarrow> nat \<Rightarrow> int list \<Rightarrow> release_data list
   \<Rightarrow> (string \<times> string \<times> release) list \<times> release_history
   \<Rightarrow> (string \<times> string \<times> release) list \<times> release_history" where
  "scan_releases ow rp i known [] (acc, h) = (acc, h)"
| "scan_releases ow rp i known (d # ds) (acc, h) =
     (if data_id d \<notin> set known
      then (let r = make_release d
            in scan_releases ow rp i known ds (acc @ [(ow, rp, r)], append_release i r h))
      else scan_releases ow rp i known ds (acc, h))"

definition check_for_new_releases ::
  "env \<Rightarrow> string \<Rightarrow> string \<Rightarrow> world \<Rightarrow> (string \<times> string \<times> release) list \<times> world" where
  "check_for_new_releases e ow rp w =
     (let (releases_data, w1) = get_releases e ow rp w
      in if releases_data = [] then ([], w1)
         else
           (let (repo_index, h2) = ensure_repo_exists ow rp (history w1);
                i = nat repo_index;
                h3 = set_latest_check i (now e (clock_reads w1)) h2;
                known_release_ids = map release_id (releases (repositories h3 ! i));
                (new_releases, h4) = scan_releases ow rp i known_release_ids releases_data ([], h3);
                w4 = w1\<lparr>history := h4, clock_reads := clock_reads w1 + 1\<rparr>
            in if new_releases \<noteq> [] then (new_releases, save_history w4)
               else (new_releases, w4)))"

subsection \<open>\<^verbatim>\<open>check_all_repositories\<close>\<close>

fun check_all_repositories ::
  "env \<Rightarrow> (string \<times> string) list \<Rightarrow> world \<Rightarrow> (string \<times> string \<times> release) list \<times> world" where
  "check_all_repositories e [] w = ([], w)"
| "check_all_repositories e ((ow, rp) # rest) w =
     (let (new_releases, w1) = check_for_new_releases e ow rp w;
          (more, w2) = check_all_repositories e rest w1
      in (new_releases @ more, w2))"

section \<open>ContentAnalysisAgent and EmailNotificationAgent\<close>

text \<open>\<^verbatim>\<open>re.sub(pat, '', s)\<close> for a literal, non-empty \<open>pat\<close>: matches are found from the
  left and do not overlap. \<open>k\<close> counts the characters of the current match still to drop.\<close>

fun re_sub_remove :: "string \<Rightarrow> nat \<Rightarrow> string \<Rightarrow> string" where
  "re_sub_remove pat k [] = []"
| "re_sub_remove pat k (c # cs) =
     (if 0 < k then re_sub_remove pat (k - 1) cs
      else if pat \<noteq> [] \<and> prefix pat (c # cs) then re_sub_remove pat (length pat - 1) cs
      else c # re_sub_remove pat 0 cs)"

text \<open>\<^verbatim>\<open>analyze_release\<close> has no exception handler: a failing model call and a failing
  \<^verbatim>\<open>assert isinstance(response, str)\<close> leave it as exceptions (\<open>Inl\<close>).\<close>

definition analyze_release ::
  "env \<Rightarrow> string \<Rightarrow> string \<Rightarrow> release \<Rightarrow> world \<Rightarrow> (error + string) \<times> world" where
  "analyze_release e ow rp r w =
     (let w1 = w\<lparr>effects := effects w @ [Analyze ow rp r]\<rparr>
      in case model_create e ow rp r of
           Llm_raises m \<Rightarrow> (Inl (Model_client_error m), w1)
         | Llm_no_string \<Rightarrow> (Inl Assertion_error, w1)
         | Llm_content response \<Rightarrow>
             (Inr (re_sub_remove ''```'' 0 (re_sub_remove ''```html'' 0 response)), w1))"

text \<open>\<^verbatim>\<open>send_notification\<close> wraps the tool call in \<^verbatim>\<open>try ... except Exception\<close>: it prints
  and returns \<^verbatim>\<open>False\<close> on an exception and on an error result.\<close>

definition send_notification ::
  "env \<Rightarrow> string \<Rightarrow> string \<Rightarrow> string \<Rightarrow> release \<Rightarrow> string \<Rightarrow> world \<Rightarrow> bool \<times> world" where
  "send_notification e recipient ow rp r content_analysis w =
     (let w1 = w\<lparr>effects := effects w @ [Send recipient ow rp r content_analysis]\<rparr>
      in case call_tool e recipient ow rp r content_analysis of
           Tool_raises m \<Rightarrow>
             (False, w1\<lparr>printed := printed w1 @ [''Failed to send email notification: '' @ m]\<rparr>)
         | Tool_is_error t \<Rightarrow>
             (False, w1\<lparr>printed := printed w1 @ [''Error sending email: '' @ t]\<rparr>)
         | Tool_done \<Rightarrow> (True, w1))"

section \<open>ReleaseMonitorOrchestrator\<close>

definition initialize :: "env \<Rightarrow> (string \<times> string) list \<Rightarrow> world \<Rightarrow> world" where
  "initialize e repos w =
     (let (init_releases, w1) = check_all_repositories e repos w in save_history w1)"

text \<open>The loop \<^verbatim>\<open>for owner, repo, release in new_releases\<close> of \<^verbatim>\<open>start_monitoring\<close>. An
  exception of \<^verbatim>\<open>analyze_release\<close> is not caught there: it ends the loop, and with it the
  monitoring (\<open>Some\<close> of the exception).\<close>

fun notify_new_releases ::
  "env \<Rightarrow> string \<Rightarrow> (string \<times> string \<times> release) list \<Rightarrow> world \<Rightarrow> error option \<times> world" where
  "notify_new_releases e recipient [] w = (None, w)"
| "notify_new_releases e recipient ((ow, rp, r) # rest) w =
     (case analyze_release e ow rp r w of
        (Inl x, w1) \<Rightarrow> (Some x, w1)
      | (Inr content_analysis, w1) \<Rightarrow>
          (let (sent, w2) = send_notification e recipient ow rp r content_analysis w1
           in notify_new_releases e recipient rest w2))"

text \<open>One pass of the body of \<^verbatim>\<open>while True\<close>, up to the sleep.\<close>

definition poll_cycle ::
  "env \<Rightarrow> (string \<times> string) list \<Rightarrow> string \<Rightarrow> world \<Rightarrow> error option \<times> world" where
  "poll_cycle e repos recipient w =
     (let (new_releases, w1) = check_all_repositories e repos w
      in notify_new_releases e recipient new_releases w1)"

text \<open>\<^verbatim>\<open>while True\<close>: the list of environments is the fuel, one environment per pass (the
  outside world may change between passes). \<open>None\<close> with the fuel used up means the loop
  is still running; \<open>Some\<close> is the exception that ended it.\<close>

fun polling_loop ::
  "env list \<Rightarrow> (string \<times> string) list \<Rightarrow> string \<Rightarrow> world \<Rightarrow> error option \<times> world" where
  "polling_loop [] repos recipient w = (None, w)"
| "polling_loop (e # es) repos recipient w =
     (case poll_cycle e repos recipient w of
        (Some x, w1) \<Rightarrow> (Some x, w1)
      | (None, w1) \<Rightarrow> polling_loop es repos recipient w1)"

definition start_monitoring ::
  "env \<Rightarrow> env list \<Rightarrow> (string \<times> string) list \<Rightarrow> string \<Rightarrow> world \<Rightarrow> error option \<times> world" where
  "start_monitoring e0 es repos recipient w = polling_loop es repos recipient (initialize e0 repos w)"

section \<open>Observations on the state\<close>

text \<open>The keys \<open>(owner, repo)\<close> of the tracked repositories, in the order of the history.\<close>

definition repo_keys :: "release_history \<Rightarrow> (string \<times> string) list" where
  "repo_keys h = map (\<lambda>c. (owner c, repo c)) (repositories h)"

text \<open>The known identifiers of a repository: those of the releases stored in the entry that
  \<open>get_repo_index\<close> finds, none when the repository is not tracked.\<close>

definition known_ids :: "release_history \<Rightarrow> string \<Rightarrow> string \<Rightarrow> int list" where
  "known_ids h ow rp =
     (let index = get_repo_index h ow rp
      in if index = -1 then [] else map release_id (releases (repositories h ! nat index)))"

text \<open>The fetched records whose identifier is not known.\<close>

definition fresh_data :: "release_history \<Rightarrow> string \<Rightarrow> string \<Rightarrow> release_data list \<Rightarrow> release_data list" where
  "fresh_data h ow rp ds = filter (\<lambda>d. data_id d \<notin> set (known_ids h ow rp)) ds"

text \<open>\<open>grows h h'\<close>: every entry of \<open>h\<close> is still at its position in \<open>h'\<close>, under the same key,
  and its stored release sequence has only been extended at the end.\<close>

definition grows :: "release_history \<Rightarrow> release_history \<Rightarrow> bool" where
  "grows h h' \<longleftrightarrow>
     length (repositories h) \<le> length (repositories h') \<and>
     (\<forall>i < length (repositories h).
        owner (repositories h' ! i) = owner (repositories h ! i) \<and>
        repo (repositories h' ! i) = repo (repositories h ! i) \<and>
        prefix (releases (repositories h ! i)) (releases (repositories h' ! i)))"

text \<open>\<open>covered e h ow rp\<close>: everything the API answers for the repository is already known.\<close>

definition covered :: "env \<Rightarrow> release_history \<Rightarrow> string \<Rightarrow> string \<Rightarrow> bool" where
  "covered e h ow rp =
     (case requests_get e ow rp of
        Inl err \<Rightarrow> True
      | Inr ds \<Rightarrow> list_all (\<lambda>d. data_id d \<in> set (known_ids h ow rp)) ds)"

text \<open>The calls of the model client and of the mail tool among the effects.\<close>

definition pipeline_calls :: "effect list \<Rightarrow> effect list" where
  "pipeline_calls xs = filter (\<lambda>x. case x of Save h \<Rightarrow> False | _ \<Rightarrow> True) xs"

subsection \<open>Concrete inputs\<close>

definition example_data :: "int \<Rightarrow> string \<Rightarrow> release_data" where
  "example_data n tag =
     \<lparr>data_id = n, data_tag_name = tag, data_name = None,
      data_published_at = ''2024-05-01T00:00:00Z'',
      data_html_url = ''https://github.com/acme/widget/releases/tag/'' @ tag,
      data_body = None\<rparr>"

text \<open>An outside world in which only \<^verbatim>\<open>acme/widget\<close> exists, with the given releases.\<close>

definition example_env ::
  "release_data list \<Rightarrow> (release \<Rightarrow> llm_result) \<Rightarrow> (release \<Rightarrow> tool_result) \<Rightarrow> env" where
  "example_env ds llm tool =
     \<lparr>requests_get = (\<lambda>ow rp. if ow = ''acme'' \<and> rp = ''widget'' then Inr ds
                              else Inl \<lparr>error_text = ''404 Client Error'', error_response = None\<rparr>),
      now = (\<lambda>n. ''T'' @ replicate n (CHR ''+'')),
      model_create = (\<lambda>ow rp r. llm r),
      call_tool = (\<lambda>recipient ow rp r content. tool r)\<rparr>"

text \<open>A state in which \<^verbatim>\<open>acme/widget\<close> is tracked with the given releases.\<close>

definition example_world :: "release list \<Rightarrow> world" where
  "example_world rs =
     \<lparr>history = \<lparr>repositories =
        [\<lparr>owner = ''acme'', repo = ''widget'', latest_check = Some ''earlier'', releases = rs\<rparr>]\<rparr>,
      clock_reads = 0, effects = [], printed = []\<rparr>"

definition empty_world :: world where
  "empty_world = \<lparr>history = \<lparr>repositories = []\<rparr>, clock_reads = 0, effects = [], printed = []\<rparr>"

section \<open>Auxiliary facts\<close>

subsection \<open>Finding and adding repositories\<close>

lemma index_from_range:
  "get_repo_index_from cs ow rp i = -1 \<or>
   (i \<le> get_repo_index_from cs ow rp i \<and> get_repo_index_from cs ow rp i < i + int (length cs))"
  by (induction cs arbitrary: i) (auto, force+)

lemma index_from_none:
  "0 \<le> i \<Longrightarrow> get_repo_index_from cs ow rp i = -1 \<longleftrightarrow> (ow, rp) \<notin> set (map (\<lambda>c. (owner c, repo c)) cs)"
proof (induction cs arbitrary: i)
  case Nil
  then show ?case by simp
next
  case (Cons c cs)
  then show ?case by auto
qed

lemma index_from_shift:
  "get_repo_index_from cs ow rp i \<noteq> -1 \<Longrightarrow> 0 \<le> i \<Longrightarrow>
   get_repo_index_from cs ow rp i = i + get_repo_index_from cs ow rp 0"
proof (induction cs arbitrary: i)
  case Nil
  then show ?case by simp
next
  case (Cons c cs)
  show ?case
  proof (cases "owner c = ow \<and> repo c = rp")
    case True
    then show ?thesis by simp
  next
    case False
    with Cons.prems have ne: "get_repo_index_from cs ow rp (i + 1) \<noteq> -1" by (simp add: False)
    with Cons.prems have ne1: "get_repo_index_from cs ow rp 1 \<noteq> -1"
      using index_from_none[of "i + 1" cs ow rp] index_from_none[of 1 cs ow rp] by simp
    have "get_repo_index_from cs ow rp (i + 1) = (i + 1) + get_repo_index_from cs ow rp 0"
      using Cons.IH[OF ne] Cons.prems by simp
    moreover have "get_repo_index_from cs ow rp 1 = 1 + get_repo_index_from cs ow rp 0"
      using Cons.IH[OF ne1] by simp
    ultimately show ?thesis by (simp add: False)
  qed
qed

lemma index_from_hit:
  "get_repo_index_from cs ow rp 0 \<noteq> -1 \<Longrightarrow>
   owner (cs ! nat (get_repo_index_from cs ow rp 0)) = ow \<and>
   repo (cs ! nat (get_repo_index_from cs ow rp 0)) = rp"
proof (induction cs)
  case Nil
  then show ?case by simp
next
  case (Cons c cs)
  show ?case
  proof (cases "owner c = ow \<and> repo c = rp")
    case True
    then show ?thesis by simp
  next
    case False
    with Cons.prems have ne1: "get_repo_index_from cs ow rp 1 \<noteq> -1" by (simp add: False)
    then have ne0: "get_repo_index_from cs ow rp 0 \<noteq> -1"
      using index_from_none[of 1 cs ow rp] index_from_none[of 0 cs ow rp] by simp
    have sh: "get_repo_index_from cs ow rp 1 = 1 + get_repo_index_from cs ow rp 0"
      using index_from_shift[OF ne1] by simp
    have ge: "0 \<le> get_repo_index_from cs ow rp 0"
      using index_from_range[of cs ow rp 0] ne0 by auto
    have "nat (1 + get_repo_index_from cs ow rp 0) = Suc (nat (get_repo_index_from cs ow rp 0))"
      using ge by simp
    then show ?thesis using sh Cons.IH[OF ne0] by (simp add: False)
  qed
qed

lemma index_from_keys:
  "map (\<lambda>c. (owner c, repo c)) cs = map (\<lambda>c. (owner c, repo c)) cs' \<Longrightarrow>
   get_repo_index_from cs ow rp i = get_repo_index_from cs' ow rp i"
proof (induction cs arbitrary: cs' i)
  case Nil
  then show ?case by simp
next
  case (Cons c cs)
  then obtain c' ds where cs': "cs' = c' # ds" by (cases cs') auto
  with Cons.prems have "owner c = owner c'" "repo c = repo c'"
    "map (\<lambda>c. (owner c, repo c)) cs = map (\<lambda>c. (owner c, repo c)) ds" by auto
  then show ?case using Cons.IH[of ds "i + 1"] cs' by simp
qed

lemma index_from_append:
  "get_repo_index_from cs ow rp i \<noteq> -1 \<Longrightarrow> 0 \<le> i \<Longrightarrow>
   get_repo_index_from (cs @ ds) ow rp i = get_repo_index_from cs ow rp i"
  by (induction cs arbitrary: i) auto

lemma index_from_append_miss:
  "get_repo_index_from cs ow rp i = -1 \<Longrightarrow> 0 \<le> i \<Longrightarrow>
   get_repo_index_from (cs @ ds) ow rp i = get_repo_index_from ds ow rp (i + int (length cs))"
  by (induction cs arbitrary: i) (auto simp: add.assoc)


lemma ensure_present:
  "(ow, rp) \<in> set (repo_keys h) \<Longrightarrow> ensure_repo_exists ow rp h = (get_repo_index h ow rp, h)"
  using index_from_none[of 0 "repositories h" ow rp]
  by (simp add: ensure_repo_exists_def get_repo_index_def repo_keys_def Let_def)

lemma ensure_absent:
  "(ow, rp) \<notin> set (repo_keys h) \<Longrightarrow>
   ensure_repo_exists ow rp h =
     (int (length (repositories h)),
      h\<lparr>repositories := repositories h @ [\<lparr>owner = ow, repo = rp, latest_check = None, releases = []\<rparr>]\<rparr>)"
  using index_from_none[of 0 "repositories h" ow rp]
  by (simp add: ensure_repo_exists_def get_repo_index_def repo_keys_def Let_def)

lemma index_present_range:
  assumes "(ow, rp) \<in> set (repo_keys h)"
  shows "0 \<le> get_repo_index h ow rp \<and> nat (get_repo_index h ow rp) < length (repositories h)"
proof -
  have ne: "get_repo_index_from (repositories h) ow rp 0 \<noteq> -1"
    using assms index_from_none[of 0 "repositories h" ow rp] by (simp add: repo_keys_def)
  then show ?thesis
    using index_from_range[of "repositories h" ow rp 0] by (auto simp: get_repo_index_def)
qed

lemma index_present_hit:
  assumes "(ow, rp) \<in> set (repo_keys h)"
  shows "owner (repositories h ! nat (get_repo_index h ow rp)) = ow \<and>
         repo (repositories h ! nat (get_repo_index h ow rp)) = rp"
proof -
  have ne: "get_repo_index_from (repositories h) ow rp 0 \<noteq> -1"
    using assms index_from_none[of 0 "repositories h" ow rp] by (simp add: repo_keys_def)
  then show ?thesis using index_from_hit[OF ne] by (simp add: get_repo_index_def)
qed

lemma ensure_repo_exists_in_range:
  "ensure_repo_exists ow rp h = (r, h') \<Longrightarrow> 0 \<le> r \<and> nat r < length (repositories h')"
  using index_present_range[of ow rp h]
  by (cases "(ow, rp) \<in> set (repo_keys h)") (auto simp: ensure_present ensure_absent)

lemma scan_releases_eq:
  "i < length (repositories h) \<Longrightarrow>
   scan_releases ow rp i known ds (acc, h) =
     (acc @ map (\<lambda>d. (ow, rp, make_release d)) (filter (\<lambda>d. data_id d \<notin> set known) ds),
      h\<lparr>repositories := (repositories h)[i := (repositories h ! i)
           \<lparr>releases := releases (repositories h ! i)
              @ map make_release (filter (\<lambda>d. data_id d \<notin> set known) ds)\<rparr>]\<rparr>)"
proof (induction ds arbitrary: acc h)
  case Nil
  then show ?case by simp
next
  case (Cons d ds)
  show ?case
  proof (cases "data_id d \<in> set known")
    case True
    then show ?thesis using Cons.IH[OF Cons.prems] by simp
  next
    case False
    have len: "i < length (repositories (append_release i (make_release d) h))"
      using Cons.prems by (simp add: append_release_def)
    show ?thesis
      using False Cons.prems
      by (simp add: Cons.IH[OF len] Let_def) (simp add: append_release_def)
  qed
qed


lemma known_after_ensure:
  assumes "ensure_repo_exists ow rp h = (r, h2)"
  shows "map release_id (releases (repositories h2 ! nat r)) = known_ids h ow rp"
proof (cases "(ow, rp) \<in> set (repo_keys h)")
  case True
  then have ne: "get_repo_index h ow rp \<noteq> -1"
    using index_present_range[OF True] by auto
  from True assms have "r = get_repo_index h ow rp" "h2 = h" by (auto simp: ensure_present)
  then show ?thesis using ne by (simp add: known_ids_def)
next
  case False
  then have eq: "get_repo_index h ow rp = -1"
    using index_from_none[of 0 "repositories h" ow rp] by (simp add: get_repo_index_def repo_keys_def)
  from False assms have "r = int (length (repositories h))"
    "h2 = h\<lparr>repositories := repositories h @ [\<lparr>owner = ow, repo = rp, latest_check = None, releases = []\<rparr>]\<rparr>"
    by (simp_all add: ensure_absent)
  then show ?thesis using eq by (simp add: known_ids_def)
qed

lemma check_unfold:
  assumes get: "requests_get e ow rp = Inr ds" and ne: "ds \<noteq> []"
    and ens: "ensure_repo_exists ow rp (history w) = (r, h2)"
  shows "check_for_new_releases e ow rp w =
     (map (\<lambda>d. (ow, rp, make_release d)) (fresh_data (history w) ow rp ds),
      (if fresh_data (history w) ow rp ds \<noteq> [] then save_history else (\<lambda>w. w))
        (w\<lparr>history := h2\<lparr>repositories := (repositories h2)[nat r := (repositories h2 ! nat r)
              \<lparr>latest_check := Some (now e (clock_reads w)),
                releases := releases (repositories h2 ! nat r)
                  @ map make_release (fresh_data (history w) ow rp ds)\<rparr>]\<rparr>,
            clock_reads := clock_reads w + 1\<rparr>))"
proof -
  have rng: "nat r < length (repositories h2)"
    using ensure_repo_exists_in_range[OF ens] by simp
  have kn: "map release_id (releases (repositories h2 ! nat r)) = known_ids (history w) ow rp"
    by (rule known_after_ensure[OF ens])
  have rng3: "nat r < length (repositories (set_latest_check (nat r) t h2))" for t
    using rng by (simp add: set_latest_check_def)
  have kn3: "map release_id (releases (repositories (set_latest_check (nat r) t h2) ! nat r))
             = known_ids (history w) ow rp" for t
    using rng kn by (simp add: set_latest_check_def)
  show ?thesis
    using get ne ens rng
    by (simp add: check_for_new_releases_def get_releases_def Let_def kn3
        scan_releases_eq[OF rng3] fresh_data_def)
       (simp add: set_latest_check_def)
qed

lemma check_empty:
  "requests_get e ow rp = Inr [] \<Longrightarrow> check_for_new_releases e ow rp w = ([], w)"
  by (simp add: check_for_new_releases_def get_releases_def)

subsection \<open>One check of one repository\<close>

lemma check_failure:
  "requests_get e ow rp = Inl err \<Longrightarrow>
   fst (check_for_new_releases e ow rp w) = [] \<and>
   history (snd (check_for_new_releases e ow rp w)) = history w \<and>
   clock_reads (snd (check_for_new_releases e ow rp w)) = clock_reads w \<and>
   effects (snd (check_for_new_releases e ow rp w)) = effects w"
  by (simp add: check_for_new_releases_def get_releases_def)

lemma grows_refl: "grows h h"
  by (simp add: grows_def)

lemma grows_trans: "grows h1 h2 \<Longrightarrow> grows h2 h3 \<Longrightarrow> grows h1 h3"
proof -
  assume a: "grows h1 h2" and b: "grows h2 h3"
  have len: "length (repositories h1) \<le> length (repositories h3)"
    using a b by (simp add: grows_def)
  have "owner (repositories h3 ! i) = owner (repositories h1 ! i) \<and>
        repo (repositories h3 ! i) = repo (repositories h1 ! i) \<and>
        prefix (releases (repositories h1 ! i)) (releases (repositories h3 ! i))"
    if i: "i < length (repositories h1)" for i
  proof -
    have i2: "i < length (repositories h2)" using a i by (simp add: grows_def)
    have p1: "prefix (releases (repositories h1 ! i)) (releases (repositories h2 ! i))"
      and k1: "owner (repositories h2 ! i) = owner (repositories h1 ! i)"
              "repo (repositories h2 ! i) = repo (repositories h1 ! i)"
      using a i by (simp_all add: grows_def)
    have p2: "prefix (releases (repositories h2 ! i)) (releases (repositories h3 ! i))"
      and k2: "owner (repositories h3 ! i) = owner (repositories h2 ! i)"
              "repo (repositories h3 ! i) = repo (repositories h2 ! i)"
      using b i2 by (simp_all add: grows_def)
    show ?thesis using k1 k2 prefix_order.trans[OF p1 p2] by simp
  qed
  with len show ?thesis by (simp add: grows_def)
qed

lemma grows_update:
  assumes "owner c = owner (repositories h ! i)" "repo c = repo (repositories h ! i)"
    "prefix (releases (repositories h ! i)) (releases c)"
  shows "grows h (h\<lparr>repositories := (repositories h)[i := c]\<rparr>)"
proof -
  have "owner ((repositories h)[i := c] ! j) = owner (repositories h ! j) \<and>
        repo ((repositories h)[i := c] ! j) = repo (repositories h ! j) \<and>
        prefix (releases (repositories h ! j)) (releases ((repositories h)[i := c] ! j))"
    if "j < length (repositories h)" for j
    using that assms by (cases "j = i") simp_all
  then show ?thesis by (simp add: grows_def)
qed

lemma grows_append: "grows h (h\<lparr>repositories := repositories h @ cs\<rparr>)"
  by (simp add: grows_def nth_append)

lemma ensure_grows: "grows h (snd (ensure_repo_exists ow rp h))"
  by (cases "(ow, rp) \<in> set (repo_keys h)") (simp_all add: ensure_present ensure_absent grows_refl grows_append)

lemma ensure_hit:
  assumes "ensure_repo_exists ow rp h = (r, h2)"
  shows "owner (repositories h2 ! nat r) = ow \<and> repo (repositories h2 ! nat r) = rp"
proof (cases "(ow, rp) \<in> set (repo_keys h)")
  case True
  with assms have "r = get_repo_index h ow rp" "h2 = h" by (auto simp: ensure_present)
  then show ?thesis using index_present_hit[OF True] by simp
next
  case False
  with assms show ?thesis by (auto simp: ensure_absent)
qed

lemma ensure_index:
  assumes "ensure_repo_exists ow rp h = (r, h2)"
  shows "get_repo_index h2 ow rp = r"
proof (cases "(ow, rp) \<in> set (repo_keys h)")
  case True
  with assms show ?thesis by (auto simp: ensure_present)
next
  case False
  then have miss: "get_repo_index_from (repositories h) ow rp 0 = -1"
    using index_from_none[of 0 "repositories h" ow rp] by (simp add: repo_keys_def)
  from False assms have "r = int (length (repositories h))"
    "h2 = h\<lparr>repositories := repositories h @ [\<lparr>owner = ow, repo = rp, latest_check = None, releases = []\<rparr>]\<rparr>"
    by (auto simp: ensure_absent)
  then show ?thesis
    using index_from_append_miss[OF miss, of "[\<lparr>owner = ow, repo = rp, latest_check = None, releases = []\<rparr>]"]
    by (simp add: get_repo_index_def)
qed

lemma index_update_same_key:
  assumes "owner c = owner (repositories h ! i)" "repo c = repo (repositories h ! i)"
  shows "get_repo_index (h\<lparr>repositories := (repositories h)[i := c]\<rparr>) ow rp = get_repo_index h ow rp"
proof -
  let ?f = "\<lambda>c. (owner c, repo c)"
  have "map ?f ((repositories h)[i := c]) = map ?f (repositories h)"
  proof (cases "i < length (repositories h)")
    case True
    have "map ?f ((repositories h)[i := c]) = (map ?f (repositories h))[i := ?f c]"
      by (rule map_update)
    also have "\<dots> = map ?f (repositories h)"
      using True assms by (simp add: list_update_same_conv)
    finally show ?thesis .
  next
    case False
    then have "(repositories h)[i := c] = repositories h" by (simp add: list_update_beyond)
    then show ?thesis by (rule arg_cong)
  qed
  then have "get_repo_index_from ((repositories h)[i := c]) ow rp 0 = get_repo_index_from (repositories h) ow rp 0"
    by (rule index_from_keys)
  then show ?thesis by (simp add: get_repo_index_def)
qed

text \<open>The state after a check that fetched something.\<close>

lemma check_history:
  assumes get: "requests_get e ow rp = Inr ds" and ne: "ds \<noteq> []"
    and ens: "ensure_repo_exists ow rp (history w) = (r, h2)"
  shows "history (snd (check_for_new_releases e ow rp w)) =
           h2\<lparr>repositories := (repositories h2)[nat r := (repositories h2 ! nat r)
              \<lparr>latest_check := Some (now e (clock_reads w)),
                releases := releases (repositories h2 ! nat r)
                  @ map make_release (fresh_data (history w) ow rp ds)\<rparr>]\<rparr>"
  by (simp add: check_unfold[OF get ne ens] save_history_def)

lemma check_effects:
  assumes get: "requests_get e ow rp = Inr ds"
  shows "effects (snd (check_for_new_releases e ow rp w)) =
           effects w @ (if fresh_data (history w) ow rp ds \<noteq> []
                        then [Save (history (snd (check_for_new_releases e ow rp w)))] else [])"
proof (cases "ds = []")
  case True
  with get show ?thesis by (simp add: check_empty fresh_data_def)
next
  case False
  obtain r h2 where ens: "ensure_repo_exists ow rp (history w) = (r, h2)"
    by (cases "ensure_repo_exists ow rp (history w)")
  show ?thesis by (simp add: check_unfold[OF get False ens] save_history_def)
qed

lemma check_grows: "grows (history w) (history (snd (check_for_new_releases e ow rp w)))"
proof (cases "requests_get e ow rp")
  case (Inl err)
  then show ?thesis by (simp add: check_failure grows_refl)
next
  case (Inr ds)
  show ?thesis
  proof (cases "ds = []")
    case True
    with Inr show ?thesis by (simp add: check_empty grows_refl)
  next
    case False
    obtain r h2 where ens: "ensure_repo_exists ow rp (history w) = (r, h2)"
      by (cases "ensure_repo_exists ow rp (history w)")
    have g1: "grows (history w) h2" using ensure_grows[of "history w" ow rp] ens by simp
    have g2: "grows h2 (h2\<lparr>repositories := (repositories h2)[nat r := (repositories h2 ! nat r)
              \<lparr>latest_check := Some (now e (clock_reads w)),
                releases := releases (repositories h2 ! nat r)
                  @ map make_release (fresh_data (history w) ow rp ds)\<rparr>]\<rparr>)"
      by (rule grows_update) simp_all
    show ?thesis using grows_trans[OF g1 g2] by (simp add: check_history[OF Inr False ens])
  qed
qed



lemma check_known_after:
  assumes get: "requests_get e ow rp = Inr ds" and ne: "ds \<noteq> []"
  shows "known_ids (history (snd (check_for_new_releases e ow rp w))) ow rp =
           known_ids (history w) ow rp @ map data_id (fresh_data (history w) ow rp ds)"
proof -
  obtain r h2 where ens: "ensure_repo_exists ow rp (history w) = (r, h2)"
    by (cases "ensure_repo_exists ow rp (history w)")
  let ?c = "(repositories h2 ! nat r)
              \<lparr>latest_check := Some (now e (clock_reads w)),
                releases := releases (repositories h2 ! nat r)
                  @ map make_release (fresh_data (history w) ow rp ds)\<rparr>"
  have rng: "0 \<le> r" "nat r < length (repositories h2)"
    using ensure_repo_exists_in_range[OF ens] by simp_all
  have idx: "get_repo_index (h2\<lparr>repositories := (repositories h2)[nat r := ?c]\<rparr>) ow rp = r"
    using index_update_same_key[of ?c h2 "nat r" ow rp] ensure_index[OF ens] by simp
  let ?H = "h2\<lparr>repositories := (repositories h2)[nat r := ?c]\<rparr>"
  have ne1: "r \<noteq> -1" using rng by simp
  have k1: "known_ids ?H ow rp = map release_id (releases (repositories ?H ! nat r))"
    unfolding known_ids_def idx Let_def using ne1 by simp
  have k2: "repositories ?H ! nat r = ?c" using rng by simp
  have ids: "map release_id (map make_release xs) = map data_id xs" for xs
    by (simp add: make_release_def)
  have "known_ids ?H ow rp = map release_id (releases (repositories h2 ! nat r))
          @ map data_id (fresh_data (history w) ow rp ds)"
    unfolding k1 k2 by (simp add: ids del: map_map)
  then show ?thesis
    unfolding check_history[OF get ne ens] known_after_ensure[OF ens] .
qed

lemma check_result:
  assumes get: "requests_get e ow rp = Inr ds"
  shows "fst (check_for_new_releases e ow rp w) =
           map (\<lambda>d. (ow, rp, make_release d)) (fresh_data (history w) ow rp ds)"
proof (cases "ds = []")
  case True
  with get show ?thesis by (simp add: check_empty fresh_data_def)
next
  case False
  obtain r h2 where ens: "ensure_repo_exists ow rp (history w) = (r, h2)"
    by (cases "ensure_repo_exists ow rp (history w)")
  show ?thesis by (simp add: check_unfold[OF get False ens])
qed

subsection \<open>Growth of the history and coverage of what the API answers\<close>

lemma grows_keys:
  assumes "grows h h'"
  shows "map (\<lambda>c. (owner c, repo c)) (take (length (repositories h)) (repositories h')) =
         map (\<lambda>c. (owner c, repo c)) (repositories h)"
proof (rule nth_equalityI)
  show "length (map (\<lambda>c. (owner c, repo c)) (take (length (repositories h)) (repositories h'))) =
        length (map (\<lambda>c. (owner c, repo c)) (repositories h))"
    using assms by (simp add: grows_def)
next
  fix i
  assume "i < length (map (\<lambda>c. (owner c, repo c)) (take (length (repositories h)) (repositories h')))"
  then have i: "i < length (repositories h)" by simp
  then show "map (\<lambda>c. (owner c, repo c)) (take (length (repositories h)) (repositories h')) ! i =
        map (\<lambda>c. (owner c, repo c)) (repositories h) ! i"
    using assms by (simp add: grows_def)
qed

lemma grows_index:
  assumes key: "(ow, rp) \<in> set (repo_keys h)" and g: "grows h h'"
  shows "get_repo_index h' ow rp = get_repo_index h ow rp"
proof -
  let ?n = "length (repositories h)"
  have ne: "get_repo_index_from (repositories h) ow rp 0 \<noteq> -1"
    using key index_from_none[of 0 "repositories h" ow rp] by (simp add: repo_keys_def)
  have eq: "get_repo_index_from (take ?n (repositories h')) ow rp 0 =
            get_repo_index_from (repositories h) ow rp 0"
    by (rule index_from_keys[OF grows_keys[OF g]])
  have "get_repo_index_from (take ?n (repositories h') @ drop ?n (repositories h')) ow rp 0 =
        get_repo_index_from (take ?n (repositories h')) ow rp 0"
    by (rule index_from_append) (simp_all add: eq ne)
  then show ?thesis by (simp add: get_repo_index_def eq)
qed

lemma index_absent: "(ow, rp) \<notin> set (repo_keys h) \<Longrightarrow> get_repo_index h ow rp = -1"
  using index_from_none[of 0 "repositories h" ow rp] by (simp add: get_repo_index_def repo_keys_def)

lemma grows_known:
  assumes g: "grows h h'"
  shows "prefix (known_ids h ow rp) (known_ids h' ow rp)"
proof (cases "(ow, rp) \<in> set (repo_keys h)")
  case True
  have rng: "0 \<le> get_repo_index h ow rp" "nat (get_repo_index h ow rp) < length (repositories h)"
    using index_present_range[OF True] by simp_all
  have same: "get_repo_index h' ow rp = get_repo_index h ow rp"
    by (rule grows_index[OF True g])
  have "prefix (releases (repositories h ! nat (get_repo_index h ow rp)))
               (releases (repositories h' ! nat (get_repo_index h ow rp)))"
    using g rng by (simp add: grows_def)
  then have "prefix (map release_id (releases (repositories h ! nat (get_repo_index h ow rp))))
                    (map release_id (releases (repositories h' ! nat (get_repo_index h ow rp))))"
    by (rule map_mono_prefix)
  then show ?thesis using rng by (simp add: known_ids_def same)
next
  case False
  then show ?thesis by (simp add: known_ids_def index_absent)
qed

lemma covered_mono:
  assumes g: "grows h h'" and c: "covered e h ow rp"
  shows "covered e h' ow rp"
proof -
  have "set (known_ids h ow rp) \<subseteq> set (known_ids h' ow rp)"
    by (rule set_mono_prefix[OF grows_known[OF g]])
  then show ?thesis
    using c by (auto simp: covered_def list_all_iff split: sum.splits)
qed

lemma check_covers: "covered e (history (snd (check_for_new_releases e ow rp w))) ow rp"
proof (cases "requests_get e ow rp")
  case (Inl err)
  then show ?thesis by (simp add: covered_def)
next
  case (Inr ds)
  show ?thesis
  proof (cases "ds = []")
    case True
    with Inr show ?thesis by (simp add: covered_def)
  next
    case False
    show ?thesis
      using Inr by (auto simp: covered_def list_all_iff check_known_after[OF Inr False] fresh_data_def)
  qed
qed

lemma check_covered_result:
  assumes "covered e (history w) ow rp"
  shows "fst (check_for_new_releases e ow rp w) = []"
proof (cases "requests_get e ow rp")
  case (Inl err)
  then show ?thesis by (simp add: check_failure)
next
  case (Inr ds)
  have "fresh_data (history w) ow rp ds = []"
    using assms Inr by (simp add: covered_def list_all_iff filter_empty_conv fresh_data_def)
  then show ?thesis
    by (simp add: check_result[OF Inr])
qed

lemma check_covered_effects:
  assumes "covered e (history w) ow rp"
  shows "effects (snd (check_for_new_releases e ow rp w)) = effects w"
proof (cases "requests_get e ow rp")
  case (Inl err)
  then show ?thesis by (simp add: check_failure)
next
  case (Inr ds)
  have "fresh_data (history w) ow rp ds = []"
    using assms Inr by (simp add: covered_def list_all_iff filter_empty_conv fresh_data_def)
  then show ?thesis by (simp add: check_effects[OF Inr])
qed

subsection \<open>One pass over the configured repositories\<close>

lemma check_all_grows: "grows (history w) (history (snd (check_all_repositories e repos w)))"
proof (induction repos arbitrary: w)
  case Nil
  show ?case by (simp add: grows_refl)
next
  case (Cons k repos)
  obtain ow rp where k: "k = (ow, rp)" by (cases k)
  have "grows (history w) (history (snd (check_for_new_releases e ow rp w)))"
    by (rule check_grows)
  moreover have "grows (history (snd (check_for_new_releases e ow rp w)))
      (history (snd (check_all_repositories e repos (snd (check_for_new_releases e ow rp w)))))"
    by (rule Cons.IH)
  ultimately show ?case
    unfolding k by (auto simp: split_beta Let_def intro: grows_trans)
qed

lemma check_all_covers:
  "(ow, rp) \<in> set repos \<Longrightarrow> covered e (history (snd (check_all_repositories e repos w))) ow rp"
proof (induction repos arbitrary: w)
  case Nil
  then show ?case by simp
next
  case (Cons k repos)
  obtain ow' rp' where k: "k = (ow', rp')" by (cases k)
  let ?w1 = "snd (check_for_new_releases e ow' rp' w)"
  have step: "snd (check_all_repositories e (k # repos) w) = snd (check_all_repositories e repos ?w1)"
    unfolding k by (simp add: split_beta Let_def)
  show ?case
  proof (cases "(ow, rp) \<in> set repos")
    case True
    then show ?thesis unfolding step by (rule Cons.IH)
  next
    case False
    with Cons.prems have same: "ow' = ow" "rp' = rp" using k by auto
    have "covered e (history ?w1) ow rp" unfolding same by (rule check_covers)
    then show ?thesis unfolding step by (rule covered_mono[OF check_all_grows])
  qed
qed

lemma check_all_covered:
  "list_all (\<lambda>(ow, rp). covered e (history w) ow rp) repos \<Longrightarrow>
   fst (check_all_repositories e repos w) = [] \<and>
   effects (snd (check_all_repositories e repos w)) = effects w"
proof (induction repos arbitrary: w)
  case Nil
  then show ?case by simp
next
  case (Cons k repos)
  obtain ow rp where k: "k = (ow, rp)" by (cases k)
  let ?w1 = "snd (check_for_new_releases e ow rp w)"
  from Cons.prems have c: "covered e (history w) ow rp"
    and rest: "list_all (\<lambda>(ow, rp). covered e (history w) ow rp) repos"
    unfolding k by simp_all
  have r1: "fst (check_for_new_releases e ow rp w) = []" by (rule check_covered_result[OF c])
  have e1: "effects ?w1 = effects w" by (rule check_covered_effects[OF c])
  have "list_all (\<lambda>(ow, rp). covered e (history ?w1) ow rp) repos"
    using rest covered_mono[OF check_grows[of w e ow rp]]
    by (auto simp: list_all_iff)
  then have "fst (check_all_repositories e repos ?w1) = [] \<and>
             effects (snd (check_all_repositories e repos ?w1)) = effects ?w1"
    by (rule Cons.IH)
  then show ?case unfolding k using r1 e1 by (simp add: split_beta Let_def)
qed

lemma covered_cong: "requests_get e' = requests_get e \<Longrightarrow> covered e' h ow rp = covered e h ow rp"
  by (simp add: covered_def)

lemma pipeline_calls_append: "pipeline_calls (xs @ ys) = pipeline_calls xs @ pipeline_calls ys"
  by (simp add: pipeline_calls_def)

lemma check_pipeline:
  "pipeline_calls (effects (snd (check_for_new_releases e ow rp w))) = pipeline_calls (effects w)"
proof (cases "requests_get e ow rp")
  case (Inl err)
  then show ?thesis by (simp add: check_failure)
next
  case (Inr ds)
  show ?thesis
    unfolding check_effects[OF Inr] pipeline_calls_append by (simp add: pipeline_calls_def)
qed

lemma check_all_pipeline:
  "pipeline_calls (effects (snd (check_all_repositories e repos w))) = pipeline_calls (effects w)"
proof (induction repos arbitrary: w)
  case Nil
  show ?case by simp
next
  case (Cons k repos)
  obtain ow rp where k: "k = (ow, rp)" by (cases k)
  show ?case unfolding k by (simp add: split_beta Let_def Cons.IH check_pipeline)
qed

lemma check_recorded:
  assumes "(ow', rp', r) \<in> set (fst (check_for_new_releases e ow rp w))"
  shows "ow' = ow \<and> rp' = rp \<and>
         release_id r \<in> set (known_ids (history (snd (check_for_new_releases e ow rp w))) ow rp)"
proof (cases "requests_get e ow rp")
  case (Inl err)
  with assms show ?thesis by (simp add: check_failure)
next
  case (Inr ds)
  from assms have ne: "ds \<noteq> []" by (auto simp: check_result[OF Inr] fresh_data_def)
  from assms obtain d where d: "d \<in> set (fresh_data (history w) ow rp ds)"
    and r: "r = make_release d" and same: "ow' = ow" "rp' = rp"
    by (auto simp: check_result[OF Inr])
  have "release_id r = data_id d" unfolding r by (simp add: make_release_def)
  with d same show ?thesis by (simp add: check_known_after[OF Inr ne])
qed

lemma check_all_recorded:
  "(ow, rp, r) \<in> set (fst (check_all_repositories e repos w)) \<Longrightarrow>
   release_id r \<in> set (known_ids (history (snd (check_all_repositories e repos w))) ow rp)"
proof (induction repos arbitrary: w)
  case Nil
  then show ?case by simp
next
  case (Cons k repos)
  obtain ow' rp' where k: "k = (ow', rp')" by (cases k)
  let ?w1 = "snd (check_for_new_releases e ow' rp' w)"
  have step: "snd (check_all_repositories e (k # repos) w) = snd (check_all_repositories e repos ?w1)"
    and res: "fst (check_all_repositories e (k # repos) w) =
              fst (check_for_new_releases e ow' rp' w) @ fst (check_all_repositories e repos ?w1)"
    unfolding k by (simp_all add: split_beta Let_def)
  from Cons.prems consider
      (here) "(ow, rp, r) \<in> set (fst (check_for_new_releases e ow' rp' w))"
    | (later) "(ow, rp, r) \<in> set (fst (check_all_repositories e repos ?w1))"
    unfolding res by auto
  then show ?case
  proof cases
    case here
    from check_recorded[OF here]
    have "release_id r \<in> set (known_ids (history ?w1) ow rp)" by auto
    moreover have "set (known_ids (history ?w1) ow rp) \<subseteq>
                   set (known_ids (history (snd (check_all_repositories e repos ?w1))) ow rp)"
      by (rule set_mono_prefix[OF grows_known[OF check_all_grows]])
    ultimately show ?thesis unfolding step by auto
  next
    case later
    then show ?thesis unfolding step by (rule Cons.IH)
  qed
qed

subsection \<open>The orchestrator\<close>

lemma analyze_history: "history (snd (analyze_release e ow rp r w)) = history w"
  by (simp add: analyze_release_def Let_def split: llm_result.splits)

lemma send_history: "history (snd (send_notification e rc ow rp r c w)) = history w"
  by (simp add: send_notification_def Let_def split: tool_result.splits)

lemma notify_history: "history (snd (notify_new_releases e rc news w)) = history w"
proof (induction e rc news w rule: notify_new_releases.induct)
  case (1 e rc w)
  show ?case by simp
next
  case (2 e rc ow rp r rest w)
  show ?case
  proof (cases "analyze_release e ow rp r w")
    case (Pair res w1)
    have h1: "history w1 = history w" using analyze_history[of e ow rp r w] Pair by simp
    show ?thesis
    proof (cases res)
      case (Inl x)
      with Pair h1 show ?thesis by simp
    next
      case (Inr content)
      obtain sent w2 where s: "send_notification e rc ow rp r content w1 = (sent, w2)"
        by (cases "send_notification e rc ow rp r content w1")
      have h2: "history w2 = history w1" using send_history[of e rc ow rp r content w1] s by simp
      have "history (snd (notify_new_releases e rc rest w2)) = history w2"
        using "2.IH"[OF Pair[symmetric] Inr s[symmetric]] by simp
      with Pair Inr s h1 h2 show ?thesis by simp
    qed
  qed
qed

lemma save_history_history: "history (save_history w) = history w"
  by (simp add: save_history_def)

lemma initialize_grows: "grows (history w) (history (initialize e repos w))"
  using check_all_grows[of w e repos]
  by (simp add: initialize_def split_beta save_history_history)

lemma poll_cycle_grows: "grows (history w) (history (snd (poll_cycle e repos rc w)))"
  using check_all_grows[of w e repos]
  by (simp add: poll_cycle_def split_beta notify_history)

lemma polling_loop_grows: "grows (history w) (history (snd (polling_loop es repos rc w)))"
proof (induction es arbitrary: w)
  case Nil
  show ?case by (simp add: grows_refl)
next
  case (Cons e es)
  obtain res w1 where p: "poll_cycle e repos rc w = (res, w1)" by (cases "poll_cycle e repos rc w")
  have g1: "grows (history w) (history w1)" using poll_cycle_grows[of w e repos rc] p by simp
  show ?case
  proof (cases res)
    case None
    have "grows (history w1) (history (snd (polling_loop es repos rc w1)))" by (rule Cons.IH)
    with g1 show ?thesis using p None by (auto intro: grows_trans)
  next
    case (Some x)
    with g1 p show ?thesis by simp
  qed
qed

lemma start_monitoring_grows:
  "grows (history w) (history (snd (start_monitoring e0 es repos rc w)))"
  unfolding start_monitoring_def
  by (rule grows_trans[OF initialize_grows polling_loop_grows])

lemma set_latest_check_grows: "grows h (set_latest_check i t h)"
  unfolding set_latest_check_def by (rule grows_update) simp_all

lemma append_release_grows: "grows h (append_release i r h)"
  unfolding append_release_def by (rule grows_update) simp_all

lemma grows_ids:
  assumes "grows h h'" "i < length (repositories h)"
  shows "set (map release_id (releases (repositories h ! i))) \<subseteq>
         set (map release_id (releases (repositories h' ! i)))"
proof -
  have "prefix (releases (repositories h ! i)) (releases (repositories h' ! i))"
    using assms by (simp add: grows_def)
  then have "prefix (map release_id (releases (repositories h ! i)))
                    (map release_id (releases (repositories h' ! i)))"
    by (rule map_mono_prefix)
  then show ?thesis by (rule set_mono_prefix)
qed

subsection \<open>Further facts on single checks and on initialising\<close>

lemma covered_same_answer:
  "requests_get e' ow rp = requests_get e ow rp \<Longrightarrow> covered e' h ow rp = covered e h ow rp"
  by (simp add: covered_def)

lemma ensure_key_present: "(ow, rp) \<in> set (repo_keys (snd (ensure_repo_exists ow rp h)))"
  by (cases "(ow, rp) \<in> set (repo_keys h)") (simp_all add: ensure_present ensure_absent repo_keys_def)

lemma ensure_twice:
  "ensure_repo_exists ow rp (snd (ensure_repo_exists ow rp h)) = ensure_repo_exists ow rp h"
proof -
  obtain r h1 where ens: "ensure_repo_exists ow rp h = (r, h1)"
    by (cases "ensure_repo_exists ow rp h")
  have "(ow, rp) \<in> set (repo_keys h1)" using ensure_key_present[of ow rp h] ens by simp
  then have "ensure_repo_exists ow rp h1 = (get_repo_index h1 ow rp, h1)" by (rule ensure_present)
  then show ?thesis using ens ensure_index[OF ens] by simp
qed

lemma ensure_iterate:
  "((\<lambda>h. snd (ensure_repo_exists ow rp h)) ^^ Suc n) h = snd (ensure_repo_exists ow rp h)"
proof (induction n)
  case 0
  show ?case by simp
next
  case (Suc n)
  have "((\<lambda>h. snd (ensure_repo_exists ow rp h)) ^^ Suc (Suc n)) h =
        snd (ensure_repo_exists ow rp (((\<lambda>h. snd (ensure_repo_exists ow rp h)) ^^ Suc n) h))"
    by simp
  also have "\<dots> = snd (ensure_repo_exists ow rp (snd (ensure_repo_exists ow rp h)))"
    unfolding Suc.IH ..
  also have "\<dots> = snd (ensure_repo_exists ow rp h)" by (simp add: ensure_twice)
  finally show ?case .
qed

lemma ensure_distinct:
  "distinct (repo_keys h) \<Longrightarrow> distinct (repo_keys (snd (ensure_repo_exists ow rp h)))"
  by (cases "(ow, rp) \<in> set (repo_keys h)") (simp_all add: ensure_present ensure_absent repo_keys_def)

lemma check_nothing_fetched:
  assumes "requests_get e ow rp = Inr [] \<or> isl (requests_get e ow rp)"
  shows "fst (check_for_new_releases e ow rp w) = [] \<and>
         history (snd (check_for_new_releases e ow rp w)) = history w \<and>
         clock_reads (snd (check_for_new_releases e ow rp w)) = clock_reads w \<and>
         effects (snd (check_for_new_releases e ow rp w)) = effects w"
proof (cases "requests_get e ow rp")
  case (Inl err)
  then show ?thesis by (simp add: check_failure)
next
  case (Inr ds)
  with assms have "ds = []" by auto
  with Inr show ?thesis by (simp add: check_empty)
qed

lemma check_entry_after:
  assumes get: "requests_get e ow rp = Inr ds" and ne: "ds \<noteq> []"
    and ens: "ensure_repo_exists ow rp (history w) = (r, h2)"
  shows "get_repo_index (history (snd (check_for_new_releases e ow rp w))) ow rp = r"
    and "releases (repositories (history (snd (check_for_new_releases e ow rp w))) ! nat r) =
           releases (repositories h2 ! nat r) @ map make_release (fresh_data (history w) ow rp ds)"
proof -
  let ?c = "(repositories h2 ! nat r)
              \<lparr>latest_check := Some (now e (clock_reads w)),
                releases := releases (repositories h2 ! nat r)
                  @ map make_release (fresh_data (history w) ow rp ds)\<rparr>"
  have rng: "nat r < length (repositories h2)"
    using ensure_repo_exists_in_range[OF ens] by simp
  have "get_repo_index (h2\<lparr>repositories := (repositories h2)[nat r := ?c]\<rparr>) ow rp = r"
    using index_update_same_key[of ?c h2 "nat r" ow rp] ensure_index[OF ens] by simp
  then show "get_repo_index (history (snd (check_for_new_releases e ow rp w))) ow rp = r"
    unfolding check_history[OF get ne ens] .
  show "releases (repositories (history (snd (check_for_new_releases e ow rp w))) ! nat r) =
           releases (repositories h2 ! nat r) @ map make_release (fresh_data (history w) ow rp ds)"
    unfolding check_history[OF get ne ens] using rng by simp
qed

lemma known_key_present: "k \<in> set (known_ids h ow rp) \<Longrightarrow> (ow, rp) \<in> set (repo_keys h)"
  by (rule ccontr) (simp add: known_ids_def index_absent)

lemma check_stored_present:
  assumes get: "requests_get e ow rp = Inr ds" and key: "(ow, rp) \<in> set (repo_keys (history w))"
  shows "releases (repositories (history (snd (check_for_new_releases e ow rp w)))
                     ! nat (get_repo_index (history w) ow rp)) =
         releases (repositories (history w) ! nat (get_repo_index (history w) ow rp))
           @ map make_release (fresh_data (history w) ow rp ds)"
proof (cases "ds = []")
  case True
  with get show ?thesis by (simp add: check_empty fresh_data_def)
next
  case False
  have ens: "ensure_repo_exists ow rp (history w) = (get_repo_index (history w) ow rp, history w)"
    by (rule ensure_present[OF key])
  show ?thesis by (rule check_entry_after(2)[OF get False ens])
qed

lemma filter_fresh_id:
  assumes "k \<notin> set (known_ids h ow rp)"
  shows "filter (\<lambda>d. data_id d = k) (fresh_data h ow rp ds) = filter (\<lambda>d. data_id d = k) ds"
  unfolding fresh_data_def filter_filter
  by (rule filter_cong) (use assms in auto)

lemma filter_made_id:
  "filter (\<lambda>r. release_id r = k) (map make_release ds) = map make_release (filter (\<lambda>d. data_id d = k) ds)"
  by (induction ds) (simp_all add: make_release_def)

lemma filter_tuple_id:
  "filter (\<lambda>(o', p', r). release_id r = k) (map (\<lambda>d. (ow, rp, make_release d)) ds) =
   map (\<lambda>d. (ow, rp, make_release d)) (filter (\<lambda>d. data_id d = k) ds)"
  by (induction ds) (simp_all add: make_release_def)

lemma two_hits:
  assumes "i < j" "j < length xs" "P (xs ! i)" "P (xs ! j)"
  shows "2 \<le> length (filter P xs)"
proof -
  have xs: "xs = take j xs @ xs ! j # drop (Suc j) xs"
    using assms(2) by (rule id_take_nth_drop)
  have "xs ! i \<in> set (take j xs)"
    using assms(1,2) by (auto simp: in_set_conv_nth intro!: exI[of _ i])
  with assms(3) have "filter P (take j xs) \<noteq> []" by (auto simp: filter_empty_conv)
  then have one: "1 \<le> length (filter P (take j xs))" by (cases "filter P (take j xs)") simp_all
  have "length (filter P xs) =
        length (filter P (take j xs)) + length (filter P (xs ! j # drop (Suc j) xs))"
    by (subst xs) simp
  with one assms(4) show ?thesis by simp
qed

lemma initialize_effects:
  "effects (initialize e repos w) =
     effects (snd (check_all_repositories e repos w)) @ [Save (history (initialize e repos w))]"
  by (simp add: initialize_def split_beta save_history_def)

lemma initialize_history:
  "history (initialize e repos w) = history (snd (check_all_repositories e repos w))"
  by (simp add: initialize_def split_beta save_history_def)

lemma initialize_covers:
  "list_all (\<lambda>(ow, rp). covered e (history (initialize e repos w)) ow rp) repos"
  unfolding initialize_history list_all_iff
  using check_all_covers[of _ _ repos e w] by auto

section \<open>Properties of the release tracking\<close>

text \<open>
  C1. The change detector returns exactly the fetched releases whose identifier is not among
  the known identifiers of the repository, as triples (owner, repo, release), in the order
  of the fetched list.
\<close>

theorem check_for_new_releases_unknown_in_order:
  "requests_get e ow rp = Inr ds \<Longrightarrow>
   fst (check_for_new_releases e ow rp w) =
     map (\<lambda>d. (ow, rp, make_release d))
       (filter (\<lambda>d. data_id d \<notin> set (known_ids (history w) ow rp)) ds)"
  by (simp add: check_result fresh_data_def)

theorem check_for_new_releases_unknown_in_order_witness:
  "requests_get (example_env [example_data 5 ''v5'', example_data 1 ''v1'', example_data 3 ''v3'']
       (\<lambda>r. Llm_no_string) (\<lambda>r. Tool_done)) ''acme'' ''widget''
     = Inr [example_data 5 ''v5'', example_data 1 ''v1'', example_data 3 ''v3''] \<and>
   fst (check_for_new_releases
         (example_env [example_data 5 ''v5'', example_data 1 ''v1'', example_data 3 ''v3'']
            (\<lambda>r. Llm_no_string) (\<lambda>r. Tool_done))
         ''acme'' ''widget'' (example_world [make_release (example_data 1 ''v1'')]))
     = [(''acme'', ''widget'', make_release (example_data 5 ''v5'')),
        (''acme'', ''widget'', make_release (example_data 3 ''v3''))]"
  using check_for_new_releases_unknown_in_order
    [of "example_env [example_data 5 ''v5'', example_data 1 ''v1'', example_data 3 ''v3'']
            (\<lambda>r. Llm_no_string) (\<lambda>r. Tool_done)" "''acme''" "''widget''"
        "[example_data 5 ''v5'', example_data 1 ''v1'', example_data 3 ''v3'']"
        "example_world [make_release (example_data 1 ''v1'')]"]
  by (simp add: example_env_def example_world_def example_data_def known_ids_def
      get_repo_index_def make_release_def)

text \<open>
  C2. Initialising runs the fetch and the change detection over the configured repositories
  without any call of the model client or of the mail tool, records every release it finds
  as known, and ends with a save of the history whether or not something was found. A
  polling pass that follows against the same answers of the API finds no new release, ends
  normally and has no effect on the collaborators: no analysis, no mail, no save.
\<close>

theorem cold_start_suppression:
  assumes same: "requests_get e' = requests_get e"
  shows "pipeline_calls (effects (initialize e repos w)) = pipeline_calls (effects w) \<and>
         effects (initialize e repos w) =
           effects (snd (check_all_repositories e repos w)) @ [Save (history (initialize e repos w))] \<and>
         (\<forall>(ow, rp, r) \<in> set (fst (check_all_repositories e repos w)).
            release_id r \<in> set (known_ids (history (initialize e repos w)) ow rp)) \<and>
         fst (check_all_repositories e' repos (initialize e repos w)) = [] \<and>
         fst (poll_cycle e' repos rc (initialize e repos w)) = None \<and>
         effects (snd (poll_cycle e' repos rc (initialize e repos w))) = effects (initialize e repos w)"
proof -
  let ?w1 = "initialize e repos w"
  have a: "pipeline_calls (effects ?w1) = pipeline_calls (effects w)"
    unfolding initialize_effects pipeline_calls_append check_all_pipeline
    by (simp add: pipeline_calls_def)
  have b: "\<forall>(ow, rp, r) \<in> set (fst (check_all_repositories e repos w)).
            release_id r \<in> set (known_ids (history ?w1) ow rp)"
    unfolding initialize_history using check_all_recorded[of _ _ _ e repos w] by auto
  have "list_all (\<lambda>(ow, rp). covered e' (history ?w1) ow rp) repos"
    using initialize_covers[of e repos w] by (simp add: covered_cong[OF same])
  then have c: "fst (check_all_repositories e' repos ?w1) = [] \<and>
                effects (snd (check_all_repositories e' repos ?w1)) = effects ?w1"
    by (rule check_all_covered)
  have d: "poll_cycle e' repos rc ?w1 = (None, snd (check_all_repositories e' repos ?w1))"
    using c by (simp add: poll_cycle_def split_beta)
  from a b c d show ?thesis by (simp add: initialize_effects)
qed

theorem cold_start_suppression_witness:
  "requests_get (example_env [example_data 1 ''v1'', example_data 2 ''v2'', example_data 3 ''v3'']
        (\<lambda>r. Llm_raises ''down'') (\<lambda>r. Tool_raises ''down''))
     = requests_get (example_env [example_data 1 ''v1'', example_data 2 ''v2'', example_data 3 ''v3'']
        (\<lambda>r. Llm_content ''ok'') (\<lambda>r. Tool_done)) \<and>
   fst (check_all_repositories
         (example_env [example_data 1 ''v1'', example_data 2 ''v2'', example_data 3 ''v3'']
            (\<lambda>r. Llm_content ''ok'') (\<lambda>r. Tool_done))
         [(''acme'', ''widget'')] empty_world)
     = [(''acme'', ''widget'', make_release (example_data 1 ''v1'')),
        (''acme'', ''widget'', make_release (example_data 2 ''v2'')),
        (''acme'', ''widget'', make_release (example_data 3 ''v3''))] \<and>
   pipeline_calls (effects (initialize
         (example_env [example_data 1 ''v1'', example_data 2 ''v2'', example_data 3 ''v3'']
            (\<lambda>r. Llm_content ''ok'') (\<lambda>r. Tool_done))
         [(''acme'', ''widget'')] empty_world)) = [] \<and>
   known_ids (history (initialize
         (example_env [example_data 1 ''v1'', example_data 2 ''v2'', example_data 3 ''v3'']
            (\<lambda>r. Llm_content ''ok'') (\<lambda>r. Tool_done))
         [(''acme'', ''widget'')] empty_world)) ''acme'' ''widget'' = [1, 2, 3] \<and>
   fst (poll_cycle
         (example_env [example_data 1 ''v1'', example_data 2 ''v2'', example_data 3 ''v3'']
            (\<lambda>r. Llm_raises ''down'') (\<lambda>r. Tool_raises ''down''))
         [(''acme'', ''widget'')] ''dev@example.org''
         (initialize
           (example_env [example_data 1 ''v1'', example_data 2 ''v2'', example_data 3 ''v3'']
              (\<lambda>r. Llm_content ''ok'') (\<lambda>r. Tool_done))
           [(''acme'', ''widget'')] empty_world)) = None \<and>
   effects (snd (poll_cycle
         (example_env [example_data 1 ''v1'', example_data 2 ''v2'', example_data 3 ''v3'']
            (\<lambda>r. Llm_raises ''down'') (\<lambda>r. Tool_raises ''down''))
         [(''acme'', ''widget'')] ''dev@example.org''
         (initialize
           (example_env [example_data 1 ''v1'', example_data 2 ''v2'', example_data 3 ''v3'']
              (\<lambda>r. Llm_content ''ok'') (\<lambda>r. Tool_done))
           [(''acme'', ''widget'')] empty_world)))
     = effects (initialize
           (example_env [example_data 1 ''v1'', example_data 2 ''v2'', example_data 3 ''v3'']
              (\<lambda>r. Llm_content ''ok'') (\<lambda>r. Tool_done))
           [(''acme'', ''widget'')] empty_world)"
proof -
  let ?ds = "[example_data 1 ''v1'', example_data 2 ''v2'', example_data 3 ''v3'']"
  let ?e = "example_env ?ds (\<lambda>r. Llm_content ''ok'') (\<lambda>r. Tool_done)"
  let ?e' = "example_env ?ds (\<lambda>r. Llm_raises ''down'') (\<lambda>r. Tool_raises ''down'')"
  let ?repos = "[(''acme'', ''widget'')]"
  have same: "requests_get ?e' = requests_get ?e" by (simp add: example_env_def)
  have get: "requests_get ?e ''acme'' ''widget'' = Inr ?ds" by (simp add: example_env_def)
  have none: "known_ids (history empty_world) ''acme'' ''widget'' = []"
    by (simp add: known_ids_def get_repo_index_def empty_world_def)
  have fresh: "fresh_data (history empty_world) ''acme'' ''widget'' ?ds = ?ds"
    by (simp add: fresh_data_def none)
  have found: "fst (check_all_repositories ?e ?repos empty_world) =
      [(''acme'', ''widget'', make_release (example_data 1 ''v1'')),
       (''acme'', ''widget'', make_release (example_data 2 ''v2'')),
       (''acme'', ''widget'', make_release (example_data 3 ''v3''))]"
    by (simp add: split_beta Let_def check_result[OF get] fresh)
  have known: "known_ids (history (initialize ?e ?repos empty_world)) ''acme'' ''widget'' = [1, 2, 3]"
  proof -
    have "known_ids (history (snd (check_for_new_releases ?e ''acme'' ''widget'' empty_world))) ''acme'' ''widget''
          = known_ids (history empty_world) ''acme'' ''widget''
            @ map data_id (fresh_data (history empty_world) ''acme'' ''widget'' ?ds)"
      by (rule check_known_after[OF get]) simp
    then have "known_ids (history (snd (check_for_new_releases ?e ''acme'' ''widget'' empty_world))) ''acme'' ''widget''
          = [1, 2, 3]"
      unfolding none fresh by (simp add: example_data_def)
    then show ?thesis by (simp add: initialize_history split_beta Let_def)
  qed
  have quiet: "pipeline_calls (effects empty_world) = []"
    by (simp add: pipeline_calls_def empty_world_def)
  note inst = cold_start_suppression[OF same, of ?repos empty_world "''dev@example.org''"]
  have p: "pipeline_calls (effects (initialize ?e ?repos empty_world)) = []"
    using inst quiet by metis
  have q1: "fst (poll_cycle ?e' ?repos ''dev@example.org'' (initialize ?e ?repos empty_world)) = None"
    using inst by blast
  have q2: "effects (snd (poll_cycle ?e' ?repos ''dev@example.org'' (initialize ?e ?repos empty_world)))
            = effects (initialize ?e ?repos empty_world)"
    using inst by blast
  from same found p known q1 q2 show ?thesis by blast
qed

text \<open>
  C3. Checking a repository twice in succession with the same fetched list reports new
  releases at most the first time: the second check returns the empty list, because the
  first one has stored every fetched identifier among the known ones.
\<close>

theorem check_for_new_releases_twice:
  assumes "requests_get e' ow rp = requests_get e ow rp"
  shows "fst (check_for_new_releases e' ow rp (snd (check_for_new_releases e ow rp w))) = [] \<and>
         covered e (history (snd (check_for_new_releases e ow rp w))) ow rp"
proof -
  have c: "covered e (history (snd (check_for_new_releases e ow rp w))) ow rp"
    by (rule check_covers)
  then have "covered e' (history (snd (check_for_new_releases e ow rp w))) ow rp"
    by (simp add: covered_same_answer[OF assms])
  then show ?thesis using c by (simp add: check_covered_result)
qed

theorem check_for_new_releases_twice_witness:
  "requests_get (example_env [example_data 7 ''v7'', example_data 8 ''v8''] (\<lambda>r. Llm_content ''ok'') (\<lambda>r. Tool_done))
       ''acme'' ''widget''
     = requests_get (example_env [example_data 7 ''v7'', example_data 8 ''v8''] (\<lambda>r. Llm_no_string) (\<lambda>r. Tool_done))
       ''acme'' ''widget'' \<and>
   fst (check_for_new_releases
         (example_env [example_data 7 ''v7'', example_data 8 ''v8''] (\<lambda>r. Llm_no_string) (\<lambda>r. Tool_done))
         ''acme'' ''widget'' empty_world)
     = [(''acme'', ''widget'', make_release (example_data 7 ''v7'')),
        (''acme'', ''widget'', make_release (example_data 8 ''v8''))] \<and>
   fst (check_for_new_releases
         (example_env [example_data 7 ''v7'', example_data 8 ''v8''] (\<lambda>r. Llm_content ''ok'') (\<lambda>r. Tool_done))
         ''acme'' ''widget''
         (snd (check_for_new_releases
           (example_env [example_data 7 ''v7'', example_data 8 ''v8''] (\<lambda>r. Llm_no_string) (\<lambda>r. Tool_done))
           ''acme'' ''widget'' empty_world))) = []"
proof -
  let ?ds = "[example_data 7 ''v7'', example_data 8 ''v8'']"
  let ?e = "example_env ?ds (\<lambda>r. Llm_no_string) (\<lambda>r. Tool_done)"
  let ?e' = "example_env ?ds (\<lambda>r. Llm_content ''ok'') (\<lambda>r. Tool_done)"
  have same: "requests_get ?e' ''acme'' ''widget'' = requests_get ?e ''acme'' ''widget''"
    by (simp add: example_env_def)
  have get: "requests_get ?e ''acme'' ''widget'' = Inr ?ds" by (simp add: example_env_def)
  have first: "fst (check_for_new_releases ?e ''acme'' ''widget'' empty_world)
     = [(''acme'', ''widget'', make_release (example_data 7 ''v7'')),
        (''acme'', ''widget'', make_release (example_data 8 ''v8''))]"
    by (simp add: check_result[OF get] fresh_data_def known_ids_def get_repo_index_def empty_world_def)
  show ?thesis
    using check_for_new_releases_twice[OF same, of empty_world] same first by simp
qed

text \<open>
  C4, as the claim states it, fails: on an empty fetch the last-check time of the repository
  is not updated. Here \<^verbatim>\<open>acme/widget\<close> is tracked with last check \<open>''earlier''\<close>, the API
  answers with the empty list, and afterwards the last check is still \<open>''earlier''\<close>, while
  the clock (never read) would have shown \<open>''T''\<close>.
\<close>

theorem empty_fetch_last_check_counterexample:
  "requests_get (example_env [] (\<lambda>r. Llm_no_string) (\<lambda>r. Tool_done)) ''acme'' ''widget'' = Inr [] \<and>
   latest_check (repositories (history (snd (check_for_new_releases
       (example_env [] (\<lambda>r. Llm_no_string) (\<lambda>r. Tool_done)) ''acme'' ''widget''
       (example_world [make_release (example_data 1 ''v1'')])))) ! 0) = Some ''earlier'' \<and>
   now (example_env [] (\<lambda>r. Llm_no_string) (\<lambda>r. Tool_done))
       (clock_reads (example_world [make_release (example_data 1 ''v1'')])) = ''T'' \<and>
   clock_reads (snd (check_for_new_releases
       (example_env [] (\<lambda>r. Llm_no_string) (\<lambda>r. Tool_done)) ''acme'' ''widget''
       (example_world [make_release (example_data 1 ''v1'')]))) = 0"
  by (simp add: check_for_new_releases_def get_releases_def example_env_def example_world_def)

text \<open>
  C4, amended. When the fetch returns the empty list or fails, \<^verbatim>\<open>check_for_new_releases\<close>
  returns the empty list and leaves the history as it is (known identifiers, last-check
  time and tracked repositories), reads no clock and saves nothing; the pass over the
  configured repositories goes on with the remaining ones.
\<close>

theorem check_for_new_releases_nothing_fetched:
  assumes "requests_get e ow rp = Inr [] \<or> isl (requests_get e ow rp)"
  shows "fst (check_for_new_releases e ow rp w) = [] \<and>
         history (snd (check_for_new_releases e ow rp w)) = history w \<and>
         known_ids (history (snd (check_for_new_releases e ow rp w))) ow rp = known_ids (history w) ow rp \<and>
         clock_reads (snd (check_for_new_releases e ow rp w)) = clock_reads w \<and>
         effects (snd (check_for_new_releases e ow rp w)) = effects w \<and>
         check_all_repositories e ((ow, rp) # rest) w =
           check_all_repositories e rest (snd (check_for_new_releases e ow rp w))"
  using check_nothing_fetched[OF assms, of w]
  by (simp add: split_beta Let_def)

theorem check_for_new_releases_nothing_fetched_witness:
  "isl (requests_get (example_env [example_data 1 ''v1''] (\<lambda>r. Llm_no_string) (\<lambda>r. Tool_done))
         ''acme'' ''gadget'') \<and>
   check_all_repositories (example_env [example_data 1 ''v1''] (\<lambda>r. Llm_no_string) (\<lambda>r. Tool_done))
       [(''acme'', ''gadget''), (''acme'', ''widget'')] empty_world =
     check_all_repositories (example_env [example_data 1 ''v1''] (\<lambda>r. Llm_no_string) (\<lambda>r. Tool_done))
       [(''acme'', ''widget'')]
       (snd (check_for_new_releases (example_env [example_data 1 ''v1''] (\<lambda>r. Llm_no_string) (\<lambda>r. Tool_done))
          ''acme'' ''gadget'' empty_world)) \<and>
   history (snd (check_for_new_releases (example_env [example_data 1 ''v1''] (\<lambda>r. Llm_no_string) (\<lambda>r. Tool_done))
          ''acme'' ''gadget'' empty_world)) = \<lparr>repositories = []\<rparr> \<and>
   fst (check_all_repositories (example_env [example_data 1 ''v1''] (\<lambda>r. Llm_no_string) (\<lambda>r. Tool_done))
       [(''acme'', ''gadget''), (''acme'', ''widget'')] empty_world) =
     [(''acme'', ''widget'', make_release (example_data 1 ''v1''))]"
proof -
  let ?e = "example_env [example_data 1 ''v1''] (\<lambda>r. Llm_no_string) (\<lambda>r. Tool_done)"
  have fail: "requests_get ?e ''acme'' ''gadget'' = Inr [] \<or> isl (requests_get ?e ''acme'' ''gadget'')"
    by (simp add: example_env_def)
  have get: "requests_get ?e ''acme'' ''widget'' = Inr [example_data 1 ''v1'']"
    by (simp add: example_env_def)
  note inst = check_for_new_releases_nothing_fetched[OF fail, of empty_world "[(''acme'', ''widget'')]"]
  have h: "history (snd (check_for_new_releases ?e ''acme'' ''gadget'' empty_world)) = \<lparr>repositories = []\<rparr>"
    using inst by (simp add: empty_world_def)
  have "fst (check_for_new_releases ?e ''acme'' ''widget''
           (snd (check_for_new_releases ?e ''acme'' ''gadget'' empty_world))) =
        [(''acme'', ''widget'', make_release (example_data 1 ''v1''))]"
    by (simp add: check_result[OF get] fresh_data_def known_ids_def get_repo_index_def h)
  then have "fst (check_all_repositories ?e [(''acme'', ''widget'')]
           (snd (check_for_new_releases ?e ''acme'' ''gadget'' empty_world))) =
        [(''acme'', ''widget'', make_release (example_data 1 ''v1''))]"
    by (simp add: split_beta Let_def)
  then show ?thesis using inst h fail by (simp add: example_env_def)
qed

text \<open>
  C5, at an input where it fails. Two new releases are found in one pass and the model
  client raises on the first: the exception leaves the pass, the second release is neither
  analysed nor mailed, and the loop ends with the exception although a further pass was due.
  Both releases are known by then, so no later pass reports them.
\<close>

theorem analysis_failure_ends_the_pass:
  "fst (check_all_repositories
         (example_env [example_data 1 ''v1'', example_data 2 ''v2'']
            (\<lambda>r. if release_id r = 1 then Llm_raises ''timeout'' else Llm_content ''ok'') (\<lambda>r. Tool_done))
         [(''acme'', ''widget'')] empty_world)
     = [(''acme'', ''widget'', make_release (example_data 1 ''v1'')),
        (''acme'', ''widget'', make_release (example_data 2 ''v2''))] \<and>
   fst (poll_cycle
         (example_env [example_data 1 ''v1'', example_data 2 ''v2'']
            (\<lambda>r. if release_id r = 1 then Llm_raises ''timeout'' else Llm_content ''ok'') (\<lambda>r. Tool_done))
         [(''acme'', ''widget'')] ''dev@example.org'' empty_world)
     = Some (Model_client_error ''timeout'') \<and>
   pipeline_calls (effects (snd (poll_cycle
         (example_env [example_data 1 ''v1'', example_data 2 ''v2'']
            (\<lambda>r. if release_id r = 1 then Llm_raises ''timeout'' else Llm_content ''ok'') (\<lambda>r. Tool_done))
         [(''acme'', ''widget'')] ''dev@example.org'' empty_world)))
     = [Analyze ''acme'' ''widget'' (make_release (example_data 1 ''v1''))] \<and>
   printed (snd (poll_cycle
         (example_env [example_data 1 ''v1'', example_data 2 ''v2'']
            (\<lambda>r. if release_id r = 1 then Llm_raises ''timeout'' else Llm_content ''ok'') (\<lambda>r. Tool_done))
         [(''acme'', ''widget'')] ''dev@example.org'' empty_world)) = [] \<and>
   fst (polling_loop
         [example_env [example_data 1 ''v1'', example_data 2 ''v2'']
            (\<lambda>r. if release_id r = 1 then Llm_raises ''timeout'' else Llm_content ''ok'') (\<lambda>r. Tool_done),
          example_env [example_data 1 ''v1'', example_data 2 ''v2''] (\<lambda>r. Llm_content ''ok'') (\<lambda>r. Tool_done)]
         [(''acme'', ''widget'')] ''dev@example.org'' empty_world)
     = Some (Model_client_error ''timeout'') \<and>
   known_ids (history (snd (poll_cycle
         (example_env [example_data 1 ''v1'', example_data 2 ''v2'']
            (\<lambda>r. if release_id r = 1 then Llm_raises ''timeout'' else Llm_content ''ok'') (\<lambda>r. Tool_done))
         [(''acme'', ''widget'')] ''dev@example.org'' empty_world))) ''acme'' ''widget'' = [1, 2]"
  by (simp add: poll_cycle_def check_for_new_releases_def get_releases_def ensure_repo_exists_def
      get_repo_index_def set_latest_check_def append_release_def save_history_def
      analyze_release_def send_notification_def pipeline_calls_def known_ids_def
      example_env_def example_data_def empty_world_def make_release_def Let_def)

text \<open>
  For comparison, the mail step next to it: when the mail tool raises on the first release,
  \<^verbatim>\<open>send_notification\<close> prints the failure and the pass goes on to the second release.
\<close>

lemma notification_failure_is_isolated:
  "fst (poll_cycle
         (example_env [example_data 1 ''v1'', example_data 2 ''v2'']
            (\<lambda>r. Llm_content ''ok'') (\<lambda>r. if release_id r = 1 then Tool_raises ''refused'' else Tool_done))
         [(''acme'', ''widget'')] ''dev@example.org'' empty_world) = None \<and>
   pipeline_calls (effects (snd (poll_cycle
         (example_env [example_data 1 ''v1'', example_data 2 ''v2'']
            (\<lambda>r. Llm_content ''ok'') (\<lambda>r. if release_id r = 1 then Tool_raises ''refused'' else Tool_done))
         [(''acme'', ''widget'')] ''dev@example.org'' empty_world)))
     = [Analyze ''acme'' ''widget'' (make_release (example_data 1 ''v1'')),
        Send ''dev@example.org'' ''acme'' ''widget'' (make_release (example_data 1 ''v1'')) ''ok'',
        Analyze ''acme'' ''widget'' (make_release (example_data 2 ''v2'')),
        Send ''dev@example.org'' ''acme'' ''widget'' (make_release (example_data 2 ''v2'')) ''ok''] \<and>
   printed (snd (poll_cycle
         (example_env [example_data 1 ''v1'', example_data 2 ''v2'']
            (\<lambda>r. Llm_content ''ok'') (\<lambda>r. if release_id r = 1 then Tool_raises ''refused'' else Tool_done))
         [(''acme'', ''widget'')] ''dev@example.org'' empty_world))
     = [''Failed to send email notification: refused'']"
  by (simp add: poll_cycle_def check_for_new_releases_def get_releases_def ensure_repo_exists_def
      get_repo_index_def set_latest_check_def append_release_def save_history_def
      analyze_release_def send_notification_def pipeline_calls_def
      example_env_def example_data_def empty_world_def make_release_def Let_def)

text \<open>
  C6. \<^verbatim>\<open>_load_history\<close> returns an empty history when the file is missing; when the file
  cannot be read or its content cannot be decoded it prints the error and returns an empty
  history; it returns a history in every case and never raises.
\<close>

theorem load_history_never_raises:
  "load_history decode File_missing = (Inr \<lparr>repositories = []\<rparr>, []) \<and>
   (decode s = Inl m \<longrightarrow>
      load_history decode (File_content s) =
        (Inr \<lparr>repositories = []\<rparr>, [''Error loading history: '' @ m])) \<and>
   load_history decode (File_unreadable m) =
     (Inr \<lparr>repositories = []\<rparr>, [''Error loading history: '' @ m]) \<and>
   (\<exists>h. fst (load_history decode f) = Inr h)"
  by (cases f) (auto simp: load_history_def split: sum.splits)

theorem load_history_never_raises_witness:
  "(\<lambda>s. if s = ''{}'' then Inr \<lparr>repositories = []\<rparr> else Inl ''Expecting value'') ''{'' = Inl ''Expecting value'' \<and>
   load_history (\<lambda>s. if s = ''{}'' then Inr \<lparr>repositories = []\<rparr> else Inl ''Expecting value'')
     (File_content ''{'') =
     (Inr \<lparr>repositories = []\<rparr>, [''Error loading history: Expecting value''])"
  using load_history_never_raises
    [of "\<lambda>s. if s = ''{}'' then Inr \<lparr>repositories = []\<rparr> else Inl ''Expecting value''"
        "''{''" "''Expecting value''" "File_missing"]
  by simp

text \<open>
  C7. \<^verbatim>\<open>_ensure_repo_exists\<close> is idempotent: when an entry for the key is present it returns
  the index of that entry and adds nothing; otherwise it appends exactly one new, empty entry
  and returns its position. A second call returns the same index and changes nothing, any
  number of calls leaves the history of the first call, and keys that were pairwise distinct
  stay so.
\<close>

theorem ensure_repo_exists_idempotent:
  "((ow, rp) \<in> set (repo_keys h) \<longrightarrow>
      ensure_repo_exists ow rp h = (get_repo_index h ow rp, h) \<and>
      0 \<le> get_repo_index h ow rp \<and>
      nat (get_repo_index h ow rp) < length (repositories h) \<and>
      owner (repositories h ! nat (get_repo_index h ow rp)) = ow \<and>
      repo (repositories h ! nat (get_repo_index h ow rp)) = rp) \<and>
   ((ow, rp) \<notin> set (repo_keys h) \<longrightarrow>
      ensure_repo_exists ow rp h =
        (int (length (repositories h)),
         h\<lparr>repositories := repositories h @
            [\<lparr>owner = ow, repo = rp, latest_check = None, releases = []\<rparr>]\<rparr>)) \<and>
   ensure_repo_exists ow rp (snd (ensure_repo_exists ow rp h)) = ensure_repo_exists ow rp h \<and>
   ((\<lambda>h. snd (ensure_repo_exists ow rp h)) ^^ Suc n) h = snd (ensure_repo_exists ow rp h) \<and>
   (distinct (repo_keys h) \<longrightarrow> distinct (repo_keys (snd (ensure_repo_exists ow rp h))))"
  using index_present_range[of ow rp h] index_present_hit[of ow rp h]
  by (auto simp: ensure_present ensure_absent ensure_twice ensure_iterate ensure_distinct
           simp del: funpow.simps)

theorem ensure_repo_exists_idempotent_witness:
  "(''acme'', ''widget'') \<notin> set (repo_keys (history empty_world)) \<and>
   distinct (repo_keys (history empty_world)) \<and>
   ensure_repo_exists ''acme'' ''widget'' (history empty_world) =
     (0, \<lparr>repositories = [\<lparr>owner = ''acme'', repo = ''widget'', latest_check = None, releases = []\<rparr>]\<rparr>) \<and>
   (''acme'', ''widget'') \<in> set (repo_keys (history (example_world []))) \<and>
   ensure_repo_exists ''acme'' ''widget'' (history (example_world [])) = (0, history (example_world [])) \<and>
   ((\<lambda>h. snd (ensure_repo_exists ''acme'' ''widget'' h)) ^^ Suc 2) (history empty_world) =
     \<lparr>repositories = [\<lparr>owner = ''acme'', repo = ''widget'', latest_check = None, releases = []\<rparr>]\<rparr> \<and>
   distinct (repo_keys (snd (ensure_repo_exists ''acme'' ''widget'' (history empty_world))))"
  using ensure_repo_exists_idempotent[of "''acme''" "''widget''" "history empty_world" 2]
    ensure_repo_exists_idempotent[of "''acme''" "''widget''" "history (example_world [])" 2]
  by (simp add: empty_world_def example_world_def repo_keys_def get_repo_index_def del: funpow.simps)

text \<open>
  C8. The stored releases of a tracked repository only grow: change detection, recording a
  check, recording a release, saving, initialising, a polling pass and any number of passes
  keep every entry at its position under its key and only extend its release sequence, so
  no identifier is ever lost from an entry or from the known identifiers of a repository.
\<close>

theorem known_ids_never_shrink:
  "grows (history w) (history (snd (check_for_new_releases e ow rp w))) \<and>
   grows (history w) (history (snd (check_all_repositories e repos w))) \<and>
   grows h (set_latest_check i t h) \<and>
   grows h (append_release i r h) \<and>
   history (save_history w) = history w \<and>
   grows (history w) (history (initialize e repos w)) \<and>
   grows (history w) (history (snd (poll_cycle e repos rc w))) \<and>
   grows (history w) (history (snd (polling_loop es repos rc w))) \<and>
   grows (history w) (history (snd (start_monitoring e es repos rc w))) \<and>
   (grows h h' \<longrightarrow>
      (\<forall>j < length (repositories h).
         set (map release_id (releases (repositories h ! j)))
           \<subseteq> set (map release_id (releases (repositories h' ! j)))) \<and>
      set (known_ids h ow rp) \<subseteq> set (known_ids h' ow rp))"
proof -
  have "set (known_ids h ow rp) \<subseteq> set (known_ids h' ow rp)" if "grows h h'"
    by (rule set_mono_prefix[OF grows_known[OF that]])
  then show ?thesis
    using grows_ids[of h h']
    by (simp add: check_grows check_all_grows set_latest_check_grows append_release_grows
        save_history_history initialize_grows poll_cycle_grows polling_loop_grows
        start_monitoring_grows)
qed

theorem known_ids_never_shrink_witness:
  "grows (history (example_world [make_release (example_data 1 ''v1'')]))
     (history (snd (polling_loop
        [example_env [example_data 2 ''v2''] (\<lambda>r. Llm_content ''ok'') (\<lambda>r. Tool_done),
         example_env [example_data 3 ''v3'', example_data 2 ''v2''] (\<lambda>r. Llm_content ''ok'') (\<lambda>r. Tool_done)]
        [(''acme'', ''widget'')] ''dev@example.org''
        (example_world [make_release (example_data 1 ''v1'')])))) \<and>
   (0::nat) < length (repositories (history (example_world [make_release (example_data 1 ''v1'')]))) \<and>
   set (map release_id (releases (repositories (history (example_world [make_release (example_data 1 ''v1'')])) ! 0)))
     \<subseteq> set (map release_id (releases (repositories
        (history (snd (polling_loop
          [example_env [example_data 2 ''v2''] (\<lambda>r. Llm_content ''ok'') (\<lambda>r. Tool_done),
           example_env [example_data 3 ''v3'', example_data 2 ''v2''] (\<lambda>r. Llm_content ''ok'') (\<lambda>r. Tool_done)]
          [(''acme'', ''widget'')] ''dev@example.org''
          (example_world [make_release (example_data 1 ''v1'')])))) ! 0)))"
proof -
  let ?w = "example_world [make_release (example_data 1 ''v1'')]"
  let ?es = "[example_env [example_data 2 ''v2''] (\<lambda>r. Llm_content ''ok'') (\<lambda>r. Tool_done),
         example_env [example_data 3 ''v3'', example_data 2 ''v2''] (\<lambda>r. Llm_content ''ok'') (\<lambda>r. Tool_done)]"
  let ?h' = "history (snd (polling_loop ?es [(''acme'', ''widget'')] ''dev@example.org'' ?w))"
  note inst = known_ids_never_shrink[where w = ?w and es = ?es and repos = "[(''acme'', ''widget'')]"
      and rc = "''dev@example.org''" and h = "history ?w" and h' = ?h']
  have g: "grows (history ?w) ?h'" using inst by blast
  have l: "(0::nat) < length (repositories (history ?w))" by (simp add: example_world_def)
  have "\<forall>j < length (repositories (history ?w)).
         set (map release_id (releases (repositories (history ?w) ! j)))
           \<subseteq> set (map release_id (releases (repositories ?h' ! j)))"
    using inst g by blast
  with l have "set (map release_id (releases (repositories (history ?w) ! 0)))
           \<subseteq> set (map release_id (releases (repositories ?h' ! 0)))" by blast
  with g l show ?thesis by blast
qed

text \<open>
  C9. A fetched record whose identifier is already known, whatever its tag, name or other
  fields, is not reported as new, and the releases stored under that identifier are left
  exactly as they were: only the identifier decides.
\<close>

theorem known_identifier_not_reported_nor_updated:
  assumes get: "requests_get e ow rp = Inr ds" and d: "d \<in> set ds"
    and known: "data_id d \<in> set (known_ids (history w) ow rp)"
  shows "filter (\<lambda>(o', p', r). release_id r = data_id d) (fst (check_for_new_releases e ow rp w)) = [] \<and>
         get_repo_index (history (snd (check_for_new_releases e ow rp w))) ow rp =
           get_repo_index (history w) ow rp \<and>
         filter (\<lambda>r. release_id r = data_id d)
           (releases (repositories (history (snd (check_for_new_releases e ow rp w)))
                        ! nat (get_repo_index (history w) ow rp))) =
         filter (\<lambda>r. release_id r = data_id d)
           (releases (repositories (history w) ! nat (get_repo_index (history w) ow rp)))"
proof -
  have key: "(ow, rp) \<in> set (repo_keys (history w))" by (rule known_key_present[OF known])
  have none: "filter (\<lambda>x. data_id x = data_id d) (fresh_data (history w) ow rp ds) = []"
    using known by (auto simp: fresh_data_def filter_empty_conv)
  have a: "filter (\<lambda>(o', p', r). release_id r = data_id d) (fst (check_for_new_releases e ow rp w)) = []"
    unfolding check_result[OF get] filter_tuple_id none by simp
  have b: "get_repo_index (history (snd (check_for_new_releases e ow rp w))) ow rp =
           get_repo_index (history w) ow rp"
    by (rule grows_index[OF key check_grows])
  have c: "filter (\<lambda>r. release_id r = data_id d)
           (releases (repositories (history (snd (check_for_new_releases e ow rp w)))
                        ! nat (get_repo_index (history w) ow rp))) =
         filter (\<lambda>r. release_id r = data_id d)
           (releases (repositories (history w) ! nat (get_repo_index (history w) ow rp)))"
    unfolding check_stored_present[OF get key] filter_append filter_made_id none by simp
  from a b c show ?thesis by blast
qed

theorem known_identifier_not_reported_nor_updated_witness:
  "requests_get (example_env [example_data 1 ''v1-edited'', example_data 2 ''v2''] (\<lambda>r. Llm_no_string) (\<lambda>r. Tool_done))
     ''acme'' ''widget'' = Inr [example_data 1 ''v1-edited'', example_data 2 ''v2''] \<and>
   example_data 1 ''v1-edited'' \<in> set [example_data 1 ''v1-edited'', example_data 2 ''v2''] \<and>
   data_id (example_data 1 ''v1-edited'') \<in>
     set (known_ids (history (example_world [make_release (example_data 1 ''v1'')])) ''acme'' ''widget'') \<and>
   filter (\<lambda>r. release_id r = 1)
     (releases (repositories (history (snd (check_for_new_releases
        (example_env [example_data 1 ''v1-edited'', example_data 2 ''v2''] (\<lambda>r. Llm_no_string) (\<lambda>r. Tool_done))
        ''acme'' ''widget'' (example_world [make_release (example_data 1 ''v1'')])))) ! 0)) =
     [make_release (example_data 1 ''v1'')]"
  using known_identifier_not_reported_nor_updated
    [of "example_env [example_data 1 ''v1-edited'', example_data 2 ''v2''] (\<lambda>r. Llm_no_string) (\<lambda>r. Tool_done)"
        "''acme''" "''widget''" "[example_data 1 ''v1-edited'', example_data 2 ''v2'']"
        "example_data 1 ''v1-edited''" "example_world [make_release (example_data 1 ''v1'')]"]
  by (simp add: example_env_def example_world_def example_data_def known_ids_def
      get_repo_index_def make_release_def)

text \<open>
  C10. When one fetched list holds two records with the same identifier and that identifier
  is not known, every record with that identifier is reported as new and appended to the
  stored releases, so at least two are: the known identifiers are read once, before the
  loop, and are not extended while it runs.
\<close>

theorem duplicate_identifier_in_one_fetch:
  assumes get: "requests_get e ow rp = Inr ds" and ij: "i < j" "j < length ds"
    and same: "data_id (ds ! j) = data_id (ds ! i)"
    and new: "data_id (ds ! i) \<notin> set (known_ids (history w) ow rp)"
  shows "filter (\<lambda>(o', p', r). release_id r = data_id (ds ! i)) (fst (check_for_new_releases e ow rp w)) =
           map (\<lambda>d. (ow, rp, make_release d)) (filter (\<lambda>d. data_id d = data_id (ds ! i)) ds) \<and>
         filter (\<lambda>r. release_id r = data_id (ds ! i))
           (releases (repositories (history (snd (check_for_new_releases e ow rp w)))
              ! nat (get_repo_index (history (snd (check_for_new_releases e ow rp w))) ow rp))) =
           map make_release (filter (\<lambda>d. data_id d = data_id (ds ! i)) ds) \<and>
         2 \<le> length (filter (\<lambda>d. data_id d = data_id (ds ! i)) ds)"
proof -
  let ?k = "data_id (ds ! i)"
  from ij have ne: "ds \<noteq> []" by auto
  obtain r h2 where ens: "ensure_repo_exists ow rp (history w) = (r, h2)"
    by (cases "ensure_repo_exists ow rp (history w)")
  have a: "filter (\<lambda>(o', p', r). release_id r = ?k) (fst (check_for_new_releases e ow rp w)) =
           map (\<lambda>d. (ow, rp, make_release d)) (filter (\<lambda>d. data_id d = ?k) ds)"
    unfolding check_result[OF get] filter_tuple_id filter_fresh_id[OF new] ..
  have old: "filter (\<lambda>r. release_id r = ?k) (releases (repositories h2 ! nat r)) = []"
  proof -
    have "?k \<notin> set (map release_id (releases (repositories h2 ! nat r)))"
      using new unfolding known_after_ensure[OF ens] .
    then show ?thesis by (force simp: filter_empty_conv image_iff)
  qed
  have b: "filter (\<lambda>r. release_id r = ?k)
           (releases (repositories (history (snd (check_for_new_releases e ow rp w)))
              ! nat (get_repo_index (history (snd (check_for_new_releases e ow rp w))) ow rp))) =
           map make_release (filter (\<lambda>d. data_id d = ?k) ds)"
    unfolding check_entry_after[OF get ne ens] filter_append old filter_made_id filter_fresh_id[OF new]
    by simp
  have c: "2 \<le> length (filter (\<lambda>d. data_id d = ?k) ds)"
    by (rule two_hits[OF ij]) (simp_all add: same)
  from a b c show ?thesis by blast
qed

theorem duplicate_identifier_in_one_fetch_witness:
  "requests_get (example_env [example_data 7 ''v7'', example_data 7 ''v7-again''] (\<lambda>r. Llm_no_string) (\<lambda>r. Tool_done))
     ''acme'' ''widget'' = Inr [example_data 7 ''v7'', example_data 7 ''v7-again''] \<and>
   (0::nat) < 1 \<and> (1::nat) < length [example_data 7 ''v7'', example_data 7 ''v7-again''] \<and>
   data_id ([example_data 7 ''v7'', example_data 7 ''v7-again''] ! 1) =
     data_id ([example_data 7 ''v7'', example_data 7 ''v7-again''] ! 0) \<and>
   data_id ([example_data 7 ''v7'', example_data 7 ''v7-again''] ! 0) \<notin>
     set (known_ids (history empty_world) ''acme'' ''widget'') \<and>
   filter (\<lambda>(o', p', r). release_id r = 7)
     (fst (check_for_new_releases
        (example_env [example_data 7 ''v7'', example_data 7 ''v7-again''] (\<lambda>r. Llm_no_string) (\<lambda>r. Tool_done))
        ''acme'' ''widget'' empty_world)) =
     [(''acme'', ''widget'', make_release (example_data 7 ''v7'')),
      (''acme'', ''widget'', make_release (example_data 7 ''v7-again''))]"
  using duplicate_identifier_in_one_fetch
    [of "example_env [example_data 7 ''v7'', example_data 7 ''v7-again''] (\<lambda>r. Llm_no_string) (\<lambda>r. Tool_done)"
        "''acme''" "''widget''" "[example_data 7 ''v7'', example_data 7 ''v7-again'']" 0 1 empty_world]
  by (simp add: example_env_def empty_world_def example_data_def known_ids_def get_repo_index_def)

end
